theory Spec2Isabelle
  imports Complex_Main "HOL-Library.Sublist"
begin

section \<open>Python strings\<close>

text \<open>
  A Python \<open>str\<close> is modelled as a \<open>string\<close>: one \<open>char\<close> per Python character,
  so that \<open>len\<close> is \<open>length\<close>. The blank-line separator \<open>"\n\n"\<close> of the source is
  \<open>NL2\<close>.
\<close>

definition NL :: string where
  "NL = [CHR 0x0A]"

definition NL2 :: string where
  "NL2 = [CHR 0x0A, CHR 0x0A]"

text \<open>
  \<open>text.split(sep)\<close>: the pieces between the non-overlapping occurrences of \<open>sep\<close>,
  found from the left. The result always has at least one piece. Python raises
  \<open>ValueError\<close> on an empty separator; both call sites of the source pass a non-empty
  literal, and the model finds no occurrence of an empty separator.
\<close>

function split_py :: "'a list \<Rightarrow> 'a list \<Rightarrow> 'a list list" where
  "split_py sep [] = [[]]"
| "split_py sep (c # cs) =
     (if sep \<noteq> [] \<and> prefix sep (c # cs)
      then [] # split_py sep (drop (length sep) (c # cs))
      else (case split_py sep cs of
              [] \<Rightarrow> [[c]]
            | p # ps \<Rightarrow> (c # p) # ps))"
  by pat_completeness auto
termination
  by (relation "measure (\<lambda>(sep, text). length text)") (auto simp: neq_Nil_conv)

declare split_py.simps [simp del]

text \<open>\<open>sep.join(xs)\<close>.\<close>

fun join_py :: "'a list \<Rightarrow> 'a list list \<Rightarrow> 'a list" where
  "join_py sep [] = []"
| "join_py sep [x] = x"
| "join_py sep (x # y # ys) = x @ sep @ join_py sep (y # ys)"

section \<open>Chunker\<close>

text \<open>
  \<open>chunk_text\<close> of \<open>main.py\<close>. The loop over the paragraphs carries the pair
  \<open>(chunks, current_chunk)\<close>; the truth value of a Python string is its being
  non-empty.
\<close>

fun chunk_loop :: "int \<Rightarrow> string list \<Rightarrow> string list \<times> string \<Rightarrow> string list \<times> string" where
  "chunk_loop max_chunk_size [] (chunks, current_chunk) = (chunks, current_chunk)"
| "chunk_loop max_chunk_size (paragraph # rest) (chunks, current_chunk) =
     (if int (length current_chunk) + int (length paragraph) > max_chunk_size
         \<and> current_chunk \<noteq> []
      then chunk_loop max_chunk_size rest (chunks @ [current_chunk], paragraph)
      else if current_chunk \<noteq> []
           then chunk_loop max_chunk_size rest (chunks, current_chunk @ NL2 @ paragraph)
           else chunk_loop max_chunk_size rest (chunks, paragraph))"

definition chunk_text :: "string \<Rightarrow> int \<Rightarrow> string list" where
  "chunk_text text max_chunk_size =
     (case chunk_loop max_chunk_size (split_py NL2 text) ([], []) of
        (chunks, current_chunk) \<Rightarrow>
          if current_chunk \<noteq> [] then chunks @ [current_chunk] else chunks)"

text \<open>The chunks a loop state stands for: the final \<open>if current_chunk:\<close> of the source.\<close>

definition emit :: "string list \<times> string \<Rightarrow> string list" where
  "emit st = (if snd st \<noteq> [] then fst st @ [snd st] else fst st)"

text \<open>
  The size bound the loop keeps: a chunk is at most two characters longer than the
  maximum, or it is one paragraph of the text that is itself longer than the maximum.
\<close>

definition chunk_fits :: "int \<Rightarrow> string list \<Rightarrow> string \<Rightarrow> bool" where
  "chunk_fits M ps c \<longleftrightarrow> int (length c) \<le> M + 2 \<or> (c \<in> set ps \<and> M < int (length c))"

text \<open>
  Auxiliary notions for reasoning about \<open>split_py\<close>: \<open>cons_hd c\<close> puts a character in
  front of the first piece; a string is \<open>tight\<close> when a separator appended to it is found
  at its end, so that splitting distributes over joining it to a next piece.
\<close>

definition cons_hd :: "'a \<Rightarrow> 'a list list \<Rightarrow> 'a list list" where
  "cons_hd c xs = (case xs of [] \<Rightarrow> [[c]] | p # ps \<Rightarrow> (c # p) # ps)"


text \<open>
  The paragraphs that the loop leaves out: paragraph \<open>i\<close> is empty and, when the loop
  reaches it, \<open>current_chunk\<close> is empty or longer than \<open>M\<close>. \<open>kept\<close> are the other
  paragraphs, in order.
\<close>

definition dropped :: "int \<Rightarrow> string list \<Rightarrow> nat \<Rightarrow> bool" where
  "dropped M ps i \<longleftrightarrow>
     ps ! i = [] \<and>
     (case chunk_loop M (take i ps) ([], []) of
        (chunks, current_chunk) \<Rightarrow> current_chunk = [] \<or> M < int (length current_chunk))"

definition kept :: "int \<Rightarrow> string list \<Rightarrow> string list" where
  "kept M ps = map ((!) ps) (filter (\<lambda>i. \<not> dropped M ps i) [0..<length ps])"

section \<open>Text extractor\<close>

text \<open>
  \<open>extract_text_from_pdf\<close> of \<open>main.py\<close>. The reader's pages are a list, read by index
  in \<open>range(len(pdf_reader.pages))\<close>; \<open>page.extract_text()\<close> is the PDF library's and
  is a parameter (for a page without recoverable text it returns the empty string).
\<close>

fun extract_loop :: "('page \<Rightarrow> string) \<Rightarrow> 'page list \<Rightarrow> nat list \<Rightarrow> string \<Rightarrow> string" where
  "extract_loop extract_text pages [] text = text"
| "extract_loop extract_text pages (page_num # rest) text =
     extract_loop extract_text pages rest (text @ extract_text (pages ! page_num) @ NL2)"

definition extract_text_from_pdf :: "('page \<Rightarrow> string) \<Rightarrow> 'page list \<Rightarrow> string" where
  "extract_text_from_pdf extract_text pages =
     extract_loop extract_text pages [0..<length pages] []"

section \<open>Phrase extraction client\<close>

text \<open>
  \<open>str.strip()\<close> removes the characters for which \<open>str.isspace\<close> holds from both ends;
  below code point 256 these are the twelve listed.
\<close>

definition is_space :: "char \<Rightarrow> bool" where
  "is_space c \<longleftrightarrow>
     c \<in> set [CHR 0x09, CHR 0x0A, CHR 0x0B, CHR 0x0C, CHR 0x0D, CHR 0x1C, CHR 0x1D,
              CHR 0x1E, CHR 0x1F, CHR 0x20, CHR 0x85, CHR 0xA0]"

definition strip_py :: "string \<Rightarrow> string" where
  "strip_py s = rev (dropWhile is_space (rev (dropWhile is_space s)))"

text \<open>
  The regular expression \<open>try again in (\d+\.\d+)s\<close> of the source. \<open>match_wait\<close>
  matches it at the start of a string and returns the two digit runs of group 1: each
  \<open>\d+\<close> is greedy and what follows it is not a digit, so the longest run of digits is
  the only candidate. \<open>re_search\<close> is \<open>re.search\<close>: the match at the leftmost position.
  \<open>decimal_value\<close> is the exact value of the matched numeral.
\<close>

definition is_digit :: "char \<Rightarrow> bool" where
  "is_digit c \<longleftrightarrow> c \<in> set ''0123456789''"

definition match_wait :: "string \<Rightarrow> (string \<times> string) option" where
  "match_wait s =
     (if prefix ''try again in '' s
      then (let r = drop (length ''try again in '') s;
                int_part = takeWhile is_digit r
            in case dropWhile is_digit r of
                 [] \<Rightarrow> None
               | d # r' \<Rightarrow>
                   (let frac_part = takeWhile is_digit r'
                    in if d = CHR ''.'' \<and> int_part \<noteq> [] \<and> frac_part \<noteq> []
                          \<and> prefix ''s'' (dropWhile is_digit r')
                       then Some (int_part, frac_part) else None))
      else None)"

fun re_search :: "string \<Rightarrow> (string \<times> string) option" where
  "re_search [] = None"
| "re_search (c # cs) =
     (case match_wait (c # cs) of
        Some g \<Rightarrow> Some g
      | None \<Rightarrow> re_search cs)"

fun digits_value :: "string \<Rightarrow> nat \<Rightarrow> nat" where
  "digits_value [] acc = acc"
| "digits_value (d # ds) acc = digits_value ds (10 * acc + (of_char d - 48))"

definition decimal_value :: "string \<times> string \<Rightarrow> rat" where
  "decimal_value g =
     of_nat (digits_value (fst g) 0) + of_nat (digits_value (snd g) 0) / 10 ^ length (snd g)"

text \<open>
  Python floats and \<open>time.sleep\<close> belong to the platform and are parameters. A finite
  float is the rational number it stands for, \<open>None\<close> is the float infinity.
  \<open>fl_round\<close> rounds a real value to a float: \<open>float(s)\<close> is the rounded value of the
  numeral and \<open>x + 1\<close> the rounded sum. \<open>sleep_raises\<close> tells for which durations
  \<open>time.sleep\<close> raises \<open>OverflowError\<close>; it always does for the infinity, and it
  never does for the constant delay of one second between two chunks.
\<close>

record platform =
  fl_round :: "rat \<Rightarrow> rat option"
  sleep_raises :: "rat \<Rightarrow> bool"

definition float_py :: "platform \<Rightarrow> string \<times> string \<Rightarrow> rat option" where
  "float_py py g = fl_round py (decimal_value g)"

definition float_add :: "platform \<Rightarrow> rat option \<Rightarrow> rat \<Rightarrow> rat option" where
  "float_add py x y = (case x of None \<Rightarrow> None | Some v \<Rightarrow> fl_round py (v + y))"

text \<open>
  Exceptions of the libraries, as values: \<open>requests.post\<close> failing, the body of a 200
  response lacking \<open>["choices"][0]["message"]["content"]\<close>, \<open>time.sleep\<close> refusing a
  duration, and the PDF libraries failing to read, open or save a document.
\<close>

datatype exn =
  Request_failed | Malformed_body | Overflow_error | Pdf_read_failed | Pdf_open_failed | Pdf_save_failed

text \<open>
  What the client reads of a response: the status code; the content of the first choice
  (\<open>None\<close> when the lookup raises); the message of the error payload as the \<open>try\<close>
  block of the 429 branch reads it (\<open>None\<close> when reading or searching it raises, the
  empty string when the payload has no message); and \<open>response.text\<close>.
\<close>

record response =
  status_code :: int
  content :: "string option"
  error_message :: "string option"
  body_text :: string

text \<open>
  The effects of a run, in order: requests posted to the service, \<open>time.sleep\<close> calls
  and the messages shown through Streamlit. The world also counts the requests sent so
  far; the service answers the \<open>n\<close>-th request for a chunk with \<open>svc n chunk\<close>.
\<close>

datatype event =
    Request string
  | Sleep rat
  | St_warning_rate_limit "rat option"
  | St_error_api int
  | St_error_body string
  | St_title
  | St_write_intro
  | St_info_extracted nat
  | St_text string
  | St_info_split nat
  | St_warning_large nat
  | St_button
  | St_write_processing
  | St_progress_bar
  | St_progress nat nat
  | St_info_processing nat nat
  | St_success
  | St_download_button string
  | St_error_exception exn
  | St_error_traceback exn

record world =
  sent :: nat
  trace :: "event list"

definition add_events :: "event list \<Rightarrow> world \<Rightarrow> world" where
  "add_events es w = w\<lparr>trace := trace w @ es\<rparr>"

type_synonym service = "nat \<Rightarrow> string \<Rightarrow> exn + response"

text \<open>
  The wait of the 429 branch: 10 seconds, replaced by \<open>float(wait_match.group(1)) + 1\<close>
  when the message matches; any exception in the \<open>try\<close> block leaves the default.
\<close>

definition wait_time_of :: "platform \<Rightarrow> response \<Rightarrow> rat option" where
  "wait_time_of py response =
     (case error_message response of
        None \<Rightarrow> Some 10
      | Some message \<Rightarrow>
          (case re_search message of
             Some wait_match \<Rightarrow> float_add py (float_py py wait_match) 1
           | None \<Rightarrow> Some 10))"

text \<open>
  \<open>get_key_phrases_for_chunk\<close> of \<open>main.py\<close>: the loop \<open>for attempt in
  range(retry_count)\<close>, with its three branches and the \<open>return []\<close> after it. The
  call of \<open>time.sleep\<close> is outside the \<open>try\<close>: when it raises, the exception leaves the
  function, after the warning has been shown.
\<close>

fun attempt_loop ::
  "platform \<Rightarrow> service \<Rightarrow> string \<Rightarrow> int \<Rightarrow> nat list \<Rightarrow> world
     \<Rightarrow> (exn + string list) \<times> world" where
  "attempt_loop py svc chunk retry_count [] w = (Inr [], w)"
| "attempt_loop py svc chunk retry_count (attempt # rest) w =
     (let w1 = add_events [Request chunk] (w\<lparr>sent := sent w + 1\<rparr>)
      in case svc (sent w) chunk of
           Inl e \<Rightarrow> (Inl e, w1)
         | Inr response \<Rightarrow>
             if status_code response = 200
             then (case content response of
                     None \<Rightarrow> (Inl Malformed_body, w1)
                   | Some c \<Rightarrow> (Inr (split_py NL (strip_py c)), w1))
             else if status_code response = 429
             then (let wait_time = wait_time_of py response;
                       w2 = add_events [St_warning_rate_limit wait_time] w1
                   in case wait_time of
                        None \<Rightarrow> (Inl Overflow_error, w2)
                      | Some t \<Rightarrow>
                          if sleep_raises py t
                          then (Inl Overflow_error, w2)
                          else (let w3 = add_events [Sleep t] w2
                                in if int attempt = retry_count - 1
                                   then (Inr [], w3)
                                   else attempt_loop py svc chunk retry_count rest w3))
             else (Inr [], add_events [St_error_api (status_code response),
                                St_error_body (body_text response)] w1))"

definition get_key_phrases_for_chunk ::
  "platform \<Rightarrow> service \<Rightarrow> string \<Rightarrow> int \<Rightarrow> world \<Rightarrow> (exn + string list) \<times> world" where
  "get_key_phrases_for_chunk py svc chunk retry_count w =
     attempt_loop py svc chunk retry_count [0..<nat retry_count] w"

text \<open>
  The loop of \<open>main\<close> over \<open>enumerate(chunks)\<close>, with \<open>retry_count\<close> at its default 3.
  An exception of the client leaves the loop (it is caught by the \<open>try\<close> of \<open>main\<close>).
\<close>

fun process_chunks ::
  "platform \<Rightarrow> service \<Rightarrow> nat \<Rightarrow> (nat \<times> string) list \<Rightarrow> string list \<Rightarrow> world
     \<Rightarrow> (exn + string list) \<times> world" where
  "process_chunks py svc len_chunks [] all_key_phrases w = (Inr all_key_phrases, w)"
| "process_chunks py svc len_chunks ((i, chunk) # rest) all_key_phrases w =
     (case get_key_phrases_for_chunk py svc chunk 3
             (add_events [St_progress (i + 1) len_chunks, St_info_processing (i + 1) len_chunks] w) of
        (Inl e, w') \<Rightarrow> (Inl e, w')
      | (Inr key_phrases, w') \<Rightarrow>
          process_chunks py svc len_chunks rest (all_key_phrases @ key_phrases)
            (if int i < int len_chunks - 1 then add_events [Sleep 1] w' else w'))"

text \<open>
  The world at the start of a run; a service that answers the first requests from a
  list and every later one with a fixed response; the two shapes of response used in
  the examples; and the events of a run of rate-limited attempts with their waits.
\<close>

definition world0 :: world where
  "world0 = \<lparr>sent = 0, trace = []\<rparr>"

definition scripted :: "response list \<Rightarrow> response \<Rightarrow> service" where
  "scripted rs r n chunk = Inr (if n < length rs then rs ! n else r)"

definition ok_response :: "string \<Rightarrow> response" where
  "ok_response c = \<lparr>status_code = 200, content = Some c, error_message = None, body_text = []\<rparr>"

definition error_response :: "int \<Rightarrow> string \<Rightarrow> response" where
  "error_response code m =
     \<lparr>status_code = code, content = None, error_message = Some m, body_text = m\<rparr>"

definition waits :: "string \<Rightarrow> rat list \<Rightarrow> event list" where
  "waits chunk ts =
     concat (map (\<lambda>t. [Request chunk, St_warning_rate_limit (Some t), Sleep t]) ts)"

text \<open>
  Request \<open>n\<close> for the chunk is answered with status 429 and leads to a wait of \<open>t\<close>
  seconds that \<open>time.sleep\<close> accepts.
\<close>

definition rate_limited :: "platform \<Rightarrow> service \<Rightarrow> string \<Rightarrow> nat \<Rightarrow> rat \<Rightarrow> bool" where
  "rate_limited py svc chunk n t \<longleftrightarrow>
     (\<exists>r. svc n chunk = Inr r \<and> status_code r = 429
          \<and> wait_time_of py r = Some t \<and> \<not> sleep_raises py t)"

text \<open>
  The hint looked for by the regular expression, at the start of a string: the literal
  text, a run of digits, a dot, a run of digits and the letter s.
\<close>

definition hint_at :: "string \<Rightarrow> bool" where
  "hint_at s \<longleftrightarrow>
     (\<exists>ip fp post. s = ''try again in '' @ ip @ ''.'' @ fp @ ''s'' @ post
        \<and> ip \<noteq> [] \<and> fp \<noteq> [] \<and> (\<forall>c \<in> set (ip @ fp). is_digit c))"

text \<open>
  A platform for the examples: the values that occur in them are floats, so nothing is
  rounded, and \<open>time.sleep\<close> accepts a duration below \<open>2^63\<close> nanoseconds.
\<close>

definition ideal_platform :: platform where
  "ideal_platform = \<lparr>fl_round = Some, sleep_raises = (\<lambda>t. 2 ^ 63 \<le> t * 10 ^ 9)\<rparr>"

section \<open>Phrase locator and highlighter\<close>

text \<open>
  A highlight annotation is a rectangle with its stroke colour. A page of an opened
  document has its text layout, which the highlighting pass never changes, and the
  annotations attached to it, in order.
\<close>

datatype 'r annot = Highlight 'r "int \<times> int \<times> int"

record ('p, 'r) page =
  layout :: 'p
  annots :: "'r annot list"

text \<open>
  The PDF libraries are parameters: \<open>PyPDF2\<close> reading the pages of the uploaded bytes and
  the text of a page; \<open>fitz\<close> opening the bytes (through the temporary file), searching a
  page for a phrase, and saving the document. Reading, opening and saving may raise.
\<close>

record ('page, 'p, 'r) pdf_lib =
  reader_pages :: "string \<Rightarrow> exn + 'page list"
  extract_text :: "'page \<Rightarrow> string"
  fitz_open :: "string \<Rightarrow> exn + ('p, 'r) page list"
  search_for :: "'p \<Rightarrow> string \<Rightarrow> 'r list"
  fitz_save :: "('p, 'r) page list \<Rightarrow> exn + string"

text \<open>
  \<open>highlight_pdf\<close> of \<open>main.py\<close>: the loop over the instances of a phrase, the loop
  over the phrases on one page, and the loop over \<open>range(len(doc))\<close>.
\<close>

fun highlight_instances :: "'r list \<Rightarrow> ('p, 'r) page \<Rightarrow> ('p, 'r) page" where
  "highlight_instances [] page = page"
| "highlight_instances (inst # rest) page =
     highlight_instances rest (page\<lparr>annots := annots page @ [Highlight inst (1, 1, 0)]\<rparr>)"

fun highlight_phrases ::
  "('p \<Rightarrow> string \<Rightarrow> 'r list) \<Rightarrow> string list \<Rightarrow> ('p, 'r) page \<Rightarrow> ('p, 'r) page" where
  "highlight_phrases search [] page = page"
| "highlight_phrases search (key_phrase # rest) page =
     (let phrase = strip_py key_phrase
      in if length phrase > 5
         then highlight_phrases search rest
                (highlight_instances (search (layout page) phrase) page)
         else highlight_phrases search rest page)"

fun highlight_pages ::
  "('p \<Rightarrow> string \<Rightarrow> 'r list) \<Rightarrow> string list \<Rightarrow> nat list \<Rightarrow> ('p, 'r) page list
     \<Rightarrow> ('p, 'r) page list" where
  "highlight_pages search key_phrases [] doc = doc"
| "highlight_pages search key_phrases (page_num # rest) doc =
     highlight_pages search key_phrases rest
       (doc[page_num := highlight_phrases search key_phrases (doc ! page_num)])"

definition highlight_pdf ::
  "('page, 'p, 'r) pdf_lib \<Rightarrow> string \<Rightarrow> string list \<Rightarrow> exn + string" where
  "highlight_pdf lib input_pdf_bytes key_phrases =
     (case fitz_open lib input_pdf_bytes of
        Inl e \<Rightarrow> Inl e
      | Inr doc \<Rightarrow>
          fitz_save lib (highlight_pages (search_for lib) key_phrases [0..<length doc] doc))"

text \<open>The annotations a list of phrases adds to a page.\<close>

definition phrase_annots ::
  "('p \<Rightarrow> string \<Rightarrow> 'r list) \<Rightarrow> 'p \<Rightarrow> string list \<Rightarrow> 'r annot list" where
  "phrase_annots search p key_phrases =
     concat (map (\<lambda>key_phrase.
        if 6 \<le> length (strip_py key_phrase)
        then map (\<lambda>inst. Highlight inst (1, 1, 0)) (search p (strip_py key_phrase))
        else []) key_phrases)"

text \<open>
  A stand-in for the libraries on one document, given by the texts of its pages. Its
  file format is every page text followed by a line end, so that saving a document as
  it was opened gives the bytes \<open>stub_bytes\<close> back. A match is the offset of an
  occurrence of the phrase in the page text. Saving refuses a document without pages, as
  \<open>doc.save\<close> of PyMuPDF does; otherwise it writes, for every page, the page text, one
  mark per annotation of the page, and the line end.
\<close>

definition occurrences :: "string \<Rightarrow> string \<Rightarrow> nat list" where
  "occurrences t phrase = filter (\<lambda>i. prefix phrase (drop i t)) [0..<length t]"

definition stub_lib :: "string list \<Rightarrow> (string, string, nat) pdf_lib" where
  "stub_lib texts =
     \<lparr>reader_pages = (\<lambda>b. Inr texts),
      extract_text = (\<lambda>t. t),
      fitz_open = (\<lambda>b. Inr (map (\<lambda>t. \<lparr>layout = t, annots = []\<rparr>) texts)),
      search_for = occurrences,
      fitz_save = (\<lambda>doc.
         if doc = [] then Inl Pdf_save_failed
         else Inr (concat (map (\<lambda>pg. layout pg @ replicate (length (annots pg)) (CHR ''!'') @ NL)
                             doc)))\<rparr>"

definition stub_bytes :: "string list \<Rightarrow> string" where
  "stub_bytes texts = concat (map (\<lambda>t. t @ NL) texts)"

section \<open>Pipeline orchestrator\<close>

text \<open>
  \<open>main\<close> of \<open>main.py\<close>, one run of the script: the uploaded file if any, and whether
  the button was clicked (the value \<open>st.button\<close> returns in this run). \<open>main_try\<close> is
  the body of the \<open>try\<close>; an exception ends it and is reported by the handler. The
  maximum chunk size 3000 and the thresholds 5 and 10 are the constants of the source.
\<close>

definition main_try ::
  "('page, 'p, 'r) pdf_lib \<Rightarrow> platform \<Rightarrow> service \<Rightarrow> string \<Rightarrow> bool \<Rightarrow> world \<Rightarrow> (exn + unit) \<times> world" where
  "main_try lib py svc pdf_bytes button w =
     (case reader_pages lib pdf_bytes of
        Inl e \<Rightarrow> (Inl e, w)
      | Inr pages \<Rightarrow>
          (let text = extract_text_from_pdf (extract_text lib) pages;
               w1 = add_events [St_info_extracted (length text), St_text text] w;
               chunks = chunk_text text 3000;
               w2 = add_events [St_info_split (length chunks)] w1;
               w3 = (if length chunks > 5
                     then add_events [St_warning_large (length chunks)] w2 else w2);
               proceed = (if length chunks > 10 then button else True);
               w4 = (if length chunks > 10 then add_events [St_button] w3 else w3)
           in if proceed
              then (case process_chunks py svc (length chunks) (enumerate 0 chunks) []
                           (add_events [St_write_processing, St_progress_bar] w4) of
                      (Inl e, w5) \<Rightarrow> (Inl e, w5)
                    | (Inr all_key_phrases, w5) \<Rightarrow>
                        (case highlight_pdf lib pdf_bytes all_key_phrases of
                           Inl e \<Rightarrow> (Inl e, w5)
                         | Inr highlighted_pdf \<Rightarrow>
                             (Inr (), add_events [St_success, St_download_button highlighted_pdf] w5)))
              else (Inr (), w4)))"

definition main ::
  "('page, 'p, 'r) pdf_lib \<Rightarrow> platform \<Rightarrow> service \<Rightarrow> string option \<Rightarrow> bool \<Rightarrow> world" where
  "main lib py svc uploaded_file button =
     (let w = add_events [St_title, St_write_intro] world0
      in case uploaded_file of
           None \<Rightarrow> w
         | Some pdf_bytes \<Rightarrow>
             (case main_try lib py svc pdf_bytes button w of
                (Inl e, w') \<Rightarrow> add_events [St_error_exception e, St_error_traceback e] w'
              | (Inr u, w') \<Rightarrow> w'))"

section \<open>Splitting and joining\<close>

lemma split_py_not_Nil: "split_py sep t \<noteq> []"
  by (induction sep t rule: split_py.induct) (auto simp: split_py.simps split: list.splits)

lemma join_py_Cons: "ps \<noteq> [] \<Longrightarrow> join_py sep (p # ps) = p @ sep @ join_py sep ps"
  by (cases ps) auto

lemma join_py_snoc: "xs \<noteq> [] \<Longrightarrow> join_py sep (xs @ [a]) = join_py sep xs @ sep @ a"
  by (induction sep xs rule: join_py.induct) auto

lemma join_split_py: "sep \<noteq> [] \<Longrightarrow> join_py sep (split_py sep t) = t"
proof (induction sep t rule: split_py.induct)
  case (1 sep)
  then show ?case by (simp add: split_py.simps)
next
  case (2 sep c cs)
  show ?case
  proof (cases "prefix sep (c # cs)")
    case True
    then have "c # cs = sep @ drop (length sep) (c # cs)"
      by (metis append_eq_conv_conj prefix_def)
    with True 2 show ?thesis
      by (simp add: join_py_Cons split_py_not_Nil split_py.simps)
  next
    case False
    obtain p ps where sp: "split_py sep cs = p # ps"
      using split_py_not_Nil [of sep cs] by (cases "split_py sep cs") auto
    with False 2 have "join_py sep (p # ps) = cs" by simp
    then have "join_py sep ((c # p) # ps) = c # cs"
      by (cases ps) auto
    with False sp show ?thesis by (simp add: split_py.simps)
  qed
qed

lemma split_py_Cons_other:
  "\<not> prefix sep (c # cs) \<Longrightarrow> split_py sep (c # cs) = cons_hd c (split_py sep cs)"
  by (simp add: cons_hd_def split_py.simps)








lemma NL2_not_Nil: "NL2 \<noteq> []"
  by (simp add: NL2_def)

section \<open>Properties of the chunker\<close>

lemma chunk_text_emit: "chunk_text text M = emit (chunk_loop M (split_py NL2 text) ([], []))"
  by (simp add: chunk_text_def emit_def split: prod.splits)

lemma chunk_loop_nonempty:
  "[] \<notin> set chunks \<Longrightarrow> [] \<notin> set (fst (chunk_loop M ps (chunks, cur)))"
  by (induction ps arbitrary: chunks cur) auto

lemma emit_nonempty: "[] \<notin> set (fst st) \<Longrightarrow> [] \<notin> set (emit st)"
  by (simp add: emit_def)

text \<open>
  Claim C10: for every input text and every maximum chunk size, every chunk the chunker
  emits is a non-empty string.
\<close>

theorem chunk_text_never_empty: "[] \<notin> set (chunk_text text M)"
  unfolding chunk_text_emit
  by (rule emit_nonempty) (simp add: chunk_loop_nonempty)

theorem chunk_text_never_empty_witness:
  "chunk_text ''ab\<newline>\<newline>\<newline>\<newline>c\<newline>\<newline>'' 2
     = [''ab\<newline>\<newline>'', ''c\<newline>\<newline>'']
   \<and> [] \<notin> set (chunk_text ''ab\<newline>\<newline>\<newline>\<newline>c\<newline>\<newline>'' 2)"
  using chunk_text_never_empty [of "''ab\<newline>\<newline>\<newline>\<newline>c\<newline>\<newline>''" 2]
  by (simp add: chunk_text_def NL2_def split_py.simps)

lemma chunk_fits_paragraph: "p \<in> set ps \<Longrightarrow> chunk_fits M ps p"
  by (auto simp: chunk_fits_def)

lemma chunk_loop_fits:
  assumes "\<forall>c \<in> set chunks. chunk_fits M all c" "cur = [] \<or> chunk_fits M all cur" "set ps \<subseteq> set all"
  shows "\<forall>c \<in> set (emit (chunk_loop M ps (chunks, cur))). chunk_fits M all c"
  using assms
proof (induction ps arbitrary: chunks cur)
  case Nil
  then show ?case by (auto simp: emit_def)
next
  case (Cons p ps)
  have p: "chunk_fits M all p" and ps: "set ps \<subseteq> set all"
    using Cons.prems(3) by (simp_all add: chunk_fits_paragraph)
  show ?case
  proof (cases "int (length cur) + int (length p) > M \<and> cur \<noteq> []")
    case True
    then have step: "chunk_loop M (p # ps) (chunks, cur) = chunk_loop M ps (chunks @ [cur], p)"
      by simp
    have "\<forall>c \<in> set (chunks @ [cur]). chunk_fits M all c"
      using Cons.prems(1,2) True by auto
    then show ?thesis
      unfolding step using p ps by (intro Cons.IH) simp_all
  next
    case False
    show ?thesis
    proof (cases "cur = []")
      case True
      then have step: "chunk_loop M (p # ps) (chunks, cur) = chunk_loop M ps (chunks, p)"
        by simp
      show ?thesis
        unfolding step using p ps Cons.prems(1) by (intro Cons.IH) simp_all
    next
      case ne: False
      with False have step:
        "chunk_loop M (p # ps) (chunks, cur) = chunk_loop M ps (chunks, cur @ NL2 @ p)"
        by simp
      from False ne have "int (length (cur @ NL2 @ p)) \<le> M + 2" by (simp add: NL2_def)
      then have "chunk_fits M all (cur @ NL2 @ p)" by (simp add: chunk_fits_def)
      then show ?thesis
        unfolding step using ps Cons.prems(1) by (intro Cons.IH) simp_all
    qed
  qed
qed

text \<open>
  Claim C2, as the code has it: the size test \<open>len(current_chunk) + len(paragraph) >
  max_chunk_size\<close> does not count the two characters of the separator that joins the
  paragraph to the chunk. So every emitted chunk is at most \<open>M + 2\<close> characters long,
  unless it is a single paragraph of the text that is itself longer than \<open>M\<close> (emitted
  whole).
\<close>

theorem chunk_text_bound:
  "c \<in> set (chunk_text text M) \<Longrightarrow>
     int (length c) \<le> M + 2 \<or> (c \<in> set (split_py NL2 text) \<and> M < int (length c))"
  using chunk_loop_fits [of "[]" M "split_py NL2 text" "[]" "split_py NL2 text"]
  by (auto simp: chunk_text_emit chunk_fits_def)

theorem chunk_text_bound_witness:
  "''ab\<newline>\<newline>c'' \<in> set (chunk_text ''ab\<newline>\<newline>c\<newline>\<newline>defgh'' 3)
   \<and> ''defgh'' \<in> set (chunk_text ''ab\<newline>\<newline>c\<newline>\<newline>defgh'' 3)
   \<and> (int (length ''ab\<newline>\<newline>c'') \<le> 3 + 2
        \<or> (''ab\<newline>\<newline>c'' \<in> set (split_py NL2 ''ab\<newline>\<newline>c\<newline>\<newline>defgh'')
            \<and> 3 < int (length ''ab\<newline>\<newline>c'')))"
proof -
  have ct: "chunk_text ''ab\<newline>\<newline>c\<newline>\<newline>defgh'' 3 = [''ab\<newline>\<newline>c'', ''defgh'']"
    by (simp add: chunk_text_def NL2_def split_py.simps)
  have m: "''ab\<newline>\<newline>c'' \<in> set (chunk_text ''ab\<newline>\<newline>c\<newline>\<newline>defgh'' 3)"
    by (simp add: ct)
  show ?thesis
    using chunk_text_bound [OF m] by (simp add: ct)
qed

text \<open>
  The claim as stated (a bound of \<open>M\<close>) fails: with \<open>M = 3\<close> the paragraphs \<open>ab\<close> and
  \<open>c\<close> pass the size test (\<open>2 + 1 \<le> 3\<close>) and are joined into one chunk of five
  characters, which is not a single paragraph of the text.
\<close>

theorem chunk_text_bound_counterexample:
  "chunk_text ''ab\<newline>\<newline>c'' 3 = [''ab\<newline>\<newline>c'']
   \<and> \<not> int (length ''ab\<newline>\<newline>c'') \<le> 3
   \<and> split_py NL2 ''ab\<newline>\<newline>c'' = [''ab'', ''c'']
   \<and> ''ab\<newline>\<newline>c'' \<notin> set (split_py NL2 ''ab\<newline>\<newline>c'')"
  by (simp add: chunk_text_def NL2_def split_py.simps)

lemma dropped_prefix: "i < length xs \<Longrightarrow> dropped M (xs @ ys) i = dropped M xs i"
  by (simp add: dropped_def nth_append)

lemma dropped_last:
  "dropped M (xs @ [p]) (length xs) \<longleftrightarrow>
     p = [] \<and> (snd (chunk_loop M xs ([], [])) = []
               \<or> M < int (length (snd (chunk_loop M xs ([], [])))))"
  by (simp add: dropped_def split: prod.splits)

lemma kept_snoc:
  "kept M (xs @ [p]) = kept M xs @ (if dropped M (xs @ [p]) (length xs) then [] else [p])"
proof -
  have "filter (\<lambda>i. \<not> dropped M (xs @ [p]) i) [0..<length xs]
      = filter (\<lambda>i. \<not> dropped M xs i) [0..<length xs]"
    by (rule filter_cong) (simp_all add: dropped_prefix)
  moreover have "map ((!) (xs @ [p])) (filter (\<lambda>i. \<not> dropped M xs i) [0..<length xs])
      = map ((!) xs) (filter (\<lambda>i. \<not> dropped M xs i) [0..<length xs])"
    by (rule map_cong) (simp_all add: nth_append)
  ultimately show ?thesis
    by (simp add: kept_def)
qed

lemma chunk_loop_snoc:
  "chunk_loop M (xs @ [p]) st = chunk_loop M [p] (chunk_loop M xs st)"
proof (induction xs arbitrary: st)
  case Nil
  then show ?case by (cases st) simp
next
  case (Cons x xs)
  obtain chunks cur where st: "st = (chunks, cur)" by (cases st)
  show ?case unfolding st by (simp add: Cons.IH)
qed

lemma join_py_snoc_join:
  "join_py sep (xs @ [a @ sep @ b]) = join_py sep (xs @ [a]) @ sep @ b"
  by (cases "xs = []") (simp_all add: join_py_snoc)

lemma join_py_snoc_if:
  "join_py sep (xs @ [a]) = (if xs = [] then a else join_py sep xs @ sep @ a)"
  by (simp add: join_py_snoc)

lemma join_py_snoc_cong:
  "join_py sep E = join_py sep K \<Longrightarrow> (E = [] \<longleftrightarrow> K = []) \<Longrightarrow>
   join_py sep (E @ [p]) = join_py sep (K @ [p])"
  by (simp add: join_py_snoc_if)

lemma chunk_loop_kept:
  "join_py NL2 (emit (chunk_loop M xs ([], []))) = join_py NL2 (kept M xs)
   \<and> (emit (chunk_loop M xs ([], [])) = [] \<longleftrightarrow> kept M xs = [])"
proof (induction xs rule: rev_induct)
  case Nil
  then show ?case by (simp add: emit_def kept_def)
next
  case (snoc p xs)
  obtain chunks cur where st: "chunk_loop M xs ([], []) = (chunks, cur)"
    by (cases "chunk_loop M xs ([], [])")
  define E where "E = emit (chunks, cur)"
  have j: "join_py NL2 E = join_py NL2 (kept M xs)"
    and e: "E = [] \<longleftrightarrow> kept M xs = []"
    using snoc.IH unfolding st E_def by simp_all
  have d: "dropped M (xs @ [p]) (length xs) \<longleftrightarrow> p = [] \<and> (cur = [] \<or> M < int (length cur))"
    by (simp add: dropped_last st)
  have same: ?case
    if "emit (chunk_loop M (xs @ [p]) ([], [])) = E" "dropped M (xs @ [p]) (length xs)"
    using that j e unfolding kept_snoc by simp
  have more: ?case
    if "emit (chunk_loop M (xs @ [p]) ([], [])) = E @ [p]" "\<not> dropped M (xs @ [p]) (length xs)"
    using that join_py_snoc_cong [OF j e, of p] unfolding kept_snoc by simp
  show ?case
  proof (cases "int (length cur) + int (length p) > M \<and> cur \<noteq> []")
    case True
    then have step: "chunk_loop M (xs @ [p]) ([], []) = (chunks @ [cur], p)"
      by (simp add: chunk_loop_snoc st)
    show ?thesis
    proof (cases "p = []")
      case pe: True
      have "emit (chunk_loop M (xs @ [p]) ([], [])) = E"
        unfolding step using True pe by (simp add: emit_def E_def)
      moreover have "dropped M (xs @ [p]) (length xs)"
        using True pe d by simp
      ultimately show ?thesis by (rule same)
    next
      case pn: False
      have "emit (chunk_loop M (xs @ [p]) ([], [])) = E @ [p]"
        unfolding step using True pn by (simp add: emit_def E_def)
      moreover have "\<not> dropped M (xs @ [p]) (length xs)"
        using True pn d by simp
      ultimately show ?thesis by (rule more)
    qed
  next
    case False
    show ?thesis
    proof (cases "cur = []")
      case ce: True
      then have step: "chunk_loop M (xs @ [p]) ([], []) = (chunks, p)"
        by (simp add: chunk_loop_snoc st)
      show ?thesis
      proof (cases "p = []")
        case pe: True
        have "emit (chunk_loop M (xs @ [p]) ([], [])) = E"
          unfolding step using ce pe by (simp add: emit_def E_def)
        moreover have "dropped M (xs @ [p]) (length xs)"
          using ce pe d by simp
        ultimately show ?thesis by (rule same)
      next
        case pn: False
        have "emit (chunk_loop M (xs @ [p]) ([], [])) = E @ [p]"
          unfolding step using ce pn by (simp add: emit_def E_def)
        moreover have "\<not> dropped M (xs @ [p]) (length xs)"
          using ce pn d by simp
        ultimately show ?thesis by (rule more)
      qed
    next
      case cn: False
      with False have le: "int (length cur) + int (length p) \<le> M" by simp
      have step: "chunk_loop M (xs @ [p]) ([], []) = (chunks, cur @ NL2 @ p)"
        using False cn by (simp add: chunk_loop_snoc st)
      have nd: "\<not> dropped M (xs @ [p]) (length xs)" using d cn le by auto
      have E: "E = chunks @ [cur]" using cn by (simp add: E_def emit_def)
      then have k: "kept M xs \<noteq> []" using e by simp
      have "join_py NL2 (emit (chunk_loop M (xs @ [p]) ([], []))) = join_py NL2 E @ NL2 @ p"
        unfolding step E using cn by (simp add: emit_def join_py_snoc_join)
      also have "\<dots> = join_py NL2 (kept M xs @ [p])"
        using k j by (simp add: join_py_snoc)
      finally have c1: "join_py NL2 (emit (chunk_loop M (xs @ [p]) ([], [])))
          = join_py NL2 (kept M (xs @ [p]))"
        using nd by (simp add: kept_snoc)
      have c2: "emit (chunk_loop M (xs @ [p]) ([], [])) \<noteq> []"
        unfolding step using cn by (simp add: emit_def)
      have c3: "kept M (xs @ [p]) \<noteq> []"
        using nd by (simp add: kept_snoc)
      show ?thesis
        using c1 c2 c3 by simp
    qed
  qed
qed

lemma sum_list_filter_zero:
  "(\<forall>x \<in> set xs. \<not> P x \<longrightarrow> f x = (0::nat)) \<Longrightarrow> sum_list (map f (filter P xs)) = sum_list (map f xs)"
  by (induction xs) simp_all

lemma length_join_py:
  "length (join_py sep xs) = sum_list (map length xs) + length sep * (length xs - 1)"
  by (induction sep xs rule: join_py.induct) simp_all

lemma kept_all: "(\<forall>i < length ps. \<not> dropped M ps i) \<Longrightarrow> kept M ps = ps"
proof -
  assume "\<forall>i < length ps. \<not> dropped M ps i"
  then have "filter (\<lambda>i. \<not> dropped M ps i) [0..<length ps] = [0..<length ps]"
    by (simp add: filter_id_conv)
  then show ?thesis by (simp add: kept_def map_nth)
qed

lemma kept_shorter:
  assumes "i < length ps" "dropped M ps i" "ps \<noteq> [[]]"
  shows "length (join_py NL2 (kept M ps)) < length (join_py NL2 ps)"
proof -
  let ?P = "\<lambda>i. \<not> dropped M ps i"
  have s: "sum_list (map length (kept M ps)) = sum_list (map length ps)"
  proof -
    have "sum_list (map (\<lambda>i. length (ps ! i)) (filter ?P [0..<length ps]))
        = sum_list (map (\<lambda>i. length (ps ! i)) [0..<length ps])"
      by (rule sum_list_filter_zero) (simp add: dropped_def)
    moreover have "map (\<lambda>i. length (ps ! i)) [0..<length ps] = map length ps"
      by (rule nth_equalityI) simp_all
    ultimately show ?thesis by (simp add: kept_def comp_def)
  qed
  have l: "length (kept M ps) < length ps"
    using length_filter_less [of i "[0..<length ps]" ?P] assms(1,2) by (simp add: kept_def)
  show ?thesis
  proof (cases "kept M ps = []")
    case True
    then have "sum_list (map length ps) = 0" using s by simp
    then have all: "\<forall>p \<in> set ps. p = []" by auto
    have "2 \<le> length ps"
    proof (rule ccontr)
      assume "\<not> 2 \<le> length ps"
      then have "length ps = 1" using assms(1) by simp
      then obtain p where "ps = [p]" by (cases ps) auto
      then show False using all assms(3) by simp
    qed
    then show ?thesis
      using True by (simp add: length_join_py NL2_def)
  next
    case False
    then have "1 \<le> length (kept M ps)" by (cases "kept M ps") simp_all
    then show ?thesis
      using l s by (simp add: length_join_py NL2_def)
  qed
qed

text \<open>
  Claim C1, as the code has it. The chunker uses the empty string both for "no chunk
  begun" and for an empty paragraph, and it emits only non-empty chunks. So an empty
  paragraph is left out, with its separator, exactly when it is met while the current
  chunk is empty or already longer than \<open>M\<close> (\<open>dropped\<close>); every other paragraph
  is kept, in order, with the separators between them. Joining the chunks with the
  separator therefore gives the kept paragraphs joined, and it gives the text back exactly
  when the text is empty or no paragraph is left out. Nothing is ever added or moved: what
  can disappear is a separator next to an empty paragraph.
\<close>

theorem chunk_text_roundtrip:
  "join_py NL2 (chunk_text text M) = join_py NL2 (kept M (split_py NL2 text))
   \<and> (join_py NL2 (chunk_text text M) = text
        \<longleftrightarrow> text = [] \<or> (\<forall>i < length (split_py NL2 text). \<not> dropped M (split_py NL2 text) i))"
proof -
  let ?ps = "split_py NL2 text"
  have k: "join_py NL2 (chunk_text text M) = join_py NL2 (kept M ?ps)"
    using chunk_loop_kept [of M ?ps] by (simp add: chunk_text_emit)
  have t: "join_py NL2 ?ps = text"
    by (simp add: join_split_py NL2_not_Nil)
  have "join_py NL2 (kept M ?ps) = text" if "text = []"
  proof -
    have "?ps = [[]]" using that by (simp add: split_py.simps)
    then show ?thesis using that by (simp add: kept_def dropped_def)
  qed
  moreover have "join_py NL2 (kept M ?ps) = text" if "\<forall>i < length ?ps. \<not> dropped M ?ps i"
    using kept_all [OF that] t by simp
  moreover have "text = [] \<or> (\<forall>i < length ?ps. \<not> dropped M ?ps i)"
    if eq: "join_py NL2 (kept M ?ps) = text"
  proof (rule ccontr)
    assume "\<not> (text = [] \<or> (\<forall>i < length ?ps. \<not> dropped M ?ps i))"
    then obtain i where ne: "text \<noteq> []" and i: "i < length ?ps" "dropped M ?ps i" by auto
    have "?ps \<noteq> [[]]" using t ne by auto
    then have "length (join_py NL2 (kept M ?ps)) < length (join_py NL2 ?ps)"
      using i by (intro kept_shorter)
    then show False using eq t by simp
  qed
  ultimately show ?thesis
    unfolding k by blast
qed

theorem chunk_text_roundtrip_witness:
  "split_py NL2 ''A\<newline>\<newline>B\<newline>\<newline>'' = [''A'', ''B'', []]
   \<and> \<not> dropped 1 [''A'', ''B'', []] 0
   \<and> \<not> dropped 1 [''A'', ''B'', []] 1
   \<and> \<not> dropped 1 [''A'', ''B'', []] 2
   \<and> chunk_text ''A\<newline>\<newline>B\<newline>\<newline>'' 1 = [''A'', ''B\<newline>\<newline>'']
   \<and> join_py NL2 (chunk_text ''A\<newline>\<newline>B\<newline>\<newline>'' 1) = ''A\<newline>\<newline>B\<newline>\<newline>''
   \<and> join_py NL2 (chunk_text ''Alpha point one.\<newline>\<newline>Beta point two.\<newline>\<newline>'' 3000)
       = ''Alpha point one.\<newline>\<newline>Beta point two.\<newline>\<newline>''"
proof -
  have sp: "split_py NL2 ''A\<newline>\<newline>B\<newline>\<newline>'' = [''A'', ''B'', []]"
    by (simp add: NL2_def split_py.simps)
  have d: "\<not> dropped 1 [''A'', ''B'', []] 0" "\<not> dropped 1 [''A'', ''B'', []] 1"
    "\<not> dropped 1 [''A'', ''B'', []] 2"
    by (simp_all add: dropped_def NL2_def)
  have a: "\<forall>i < length [''A'', ''B'', []]. \<not> dropped 1 [''A'', ''B'', []] i"
    by (simp add: less_Suc_eq dropped_def NL2_def)
  have ct: "chunk_text ''A\<newline>\<newline>B\<newline>\<newline>'' 1 = [''A'', ''B\<newline>\<newline>'']"
    by (simp add: chunk_text_def sp) (simp add: NL2_def)
  have sp2: "split_py NL2 ''Alpha point one.\<newline>\<newline>Beta point two.\<newline>\<newline>''
      = [''Alpha point one.'', ''Beta point two.'', []]"
    by (simp add: NL2_def split_py.simps)
  have a2: "\<forall>i < length [''Alpha point one.'', ''Beta point two.'', []].
      \<not> dropped 3000 [''Alpha point one.'', ''Beta point two.'', []] i"
    by (simp add: less_Suc_eq dropped_def NL2_def)
  have r1: "join_py NL2 (chunk_text ''A\<newline>\<newline>B\<newline>\<newline>'' 1) = ''A\<newline>\<newline>B\<newline>\<newline>''"
    using chunk_text_roundtrip [of "''A\<newline>\<newline>B\<newline>\<newline>''" 1, unfolded sp] a by blast
  have r2: "join_py NL2 (chunk_text ''Alpha point one.\<newline>\<newline>Beta point two.\<newline>\<newline>'' 3000)
       = ''Alpha point one.\<newline>\<newline>Beta point two.\<newline>\<newline>''"
    using chunk_text_roundtrip [of "''Alpha point one.\<newline>\<newline>Beta point two.\<newline>\<newline>''" 3000,
        unfolded sp2] a2 by blast
  from sp d ct r1 r2 show ?thesis by blast
qed

text \<open>
  The claim as stated (every text is reconstructed) fails on the text \<open>"\n\n"\<close>, which
  gives no chunk at all, and on \<open>"abcd\n\n"\<close> with \<open>M = 3\<close>, where the separator
  after a paragraph longer than \<open>M\<close> is lost.
\<close>

theorem chunk_text_roundtrip_counterexample:
  "chunk_text ''\<newline>\<newline>'' 3000 = []
   \<and> join_py NL2 (chunk_text ''\<newline>\<newline>'' 3000) \<noteq> ''\<newline>\<newline>''
   \<and> chunk_text ''abcd\<newline>\<newline>'' 3 = [''abcd'']
   \<and> join_py NL2 (chunk_text ''abcd\<newline>\<newline>'' 3) \<noteq> ''abcd\<newline>\<newline>''"
  by (simp add: chunk_text_def NL2_def split_py.simps)

section \<open>Properties of the text extractor\<close>

lemma extract_loop_map:
  "extract_loop ex pages ns acc = acc @ concat (map (\<lambda>n. ex (pages ! n) @ NL2) ns)"
  by (induction ns arbitrary: acc) simp_all

lemma extract_text_from_pdf_concat:
  "extract_text_from_pdf ex pages = concat (map (\<lambda>page. ex page @ NL2) pages)"
proof -
  have "map (\<lambda>n. ex (pages ! n) @ NL2) [0..<length pages] = map (\<lambda>page. ex page @ NL2) pages"
    by (rule nth_equalityI) simp_all
  then show ?thesis
    by (simp add: extract_text_from_pdf_def extract_loop_map)
qed

lemma join_py_concat:
  "xs \<noteq> [] \<Longrightarrow> join_py sep xs @ sep = concat (map (\<lambda>x. x @ sep) xs)"
  by (induction sep xs rule: join_py.induct) simp_all

text \<open>
  Claim C5, as the code has it: the separator is appended after every page, the last one
  included. The extracted text is the concatenation, in page order, of each page's text
  followed by the blank-line separator; for a document with at least one page that is
  the page texts joined by the separator, plus one trailing separator. A page with the
  empty text contributes the empty string (and its separator).
\<close>

theorem extract_text_from_pdf_pages:
  "extract_text_from_pdf ex pages = concat (map (\<lambda>page. ex page @ NL2) pages)
   \<and> (pages \<noteq> [] \<longrightarrow> extract_text_from_pdf ex pages = join_py NL2 (map ex pages) @ NL2)"
proof -
  have "pages \<noteq> [] \<longrightarrow> join_py NL2 (map ex pages) @ NL2 = concat (map (\<lambda>page. ex page @ NL2) pages)"
    using join_py_concat [of "map ex pages" NL2] by (simp add: comp_def)
  then show ?thesis
    by (simp add: extract_text_from_pdf_concat)
qed

theorem extract_text_from_pdf_pages_witness:
  "[''a'', '''', ''b''] \<noteq> []
   \<and> extract_text_from_pdf id [''a'', '''', ''b''] = ''a\<newline>\<newline>\<newline>\<newline>b\<newline>\<newline>''
   \<and> join_py NL2 (map id [''a'', '''', ''b'']) @ NL2 = ''a\<newline>\<newline>\<newline>\<newline>b\<newline>\<newline>''"
  using extract_text_from_pdf_pages [of id "[''a'', '''', ''b'']"]
  by (simp add: NL2_def)

text \<open>
  The claim as stated (a separator only between consecutive pages) fails on a document
  of one page: the text ends with a separator.
\<close>

theorem extract_text_from_pdf_pages_counterexample:
  "extract_text_from_pdf id [''a''] = ''a\<newline>\<newline>''
   \<and> join_py NL2 (map id [''a'']) = ''a''
   \<and> extract_text_from_pdf id [''a''] \<noteq> join_py NL2 (map id [''a''])"
  by (simp add: extract_text_from_pdf_def NL2_def)

section \<open>Properties of the client\<close>

lemma add_events_Nil: "add_events [] w = w"
  by (simp add: add_events_def)

lemma sent_add_events: "sent (add_events es w) = sent w"
  by (simp add: add_events_def)

lemma waits_append: "waits chunk (xs @ ys) = waits chunk xs @ waits chunk ys"
  by (simp add: waits_def)

lemma attempt_loop_rate_limited_step:
  assumes "rate_limited py svc chunk (sent w) t"
  shows "attempt_loop py svc chunk retry_count (a # rest) w
       = (if int a = retry_count - 1
          then (Inr [], add_events (waits chunk [t]) (w\<lparr>sent := sent w + 1\<rparr>))
          else attempt_loop py svc chunk retry_count rest
                 (add_events (waits chunk [t]) (w\<lparr>sent := sent w + 1\<rparr>)))"
proof -
  obtain r where r: "svc (sent w) chunk = Inr r" "status_code r = 429"
    "wait_time_of py r = Some t" "\<not> sleep_raises py t"
    using assms unfolding rate_limited_def by blast
  show ?thesis
    using r by (simp add: Let_def waits_def add_events_def)
qed

lemma attempt_loop_rate_limited:
  assumes "a + length ts < nat retry_count"
    and "\<forall>j < length ts. rate_limited py svc chunk (sent w + j) (ts ! j)"
  shows "attempt_loop py svc chunk retry_count [a..<nat retry_count] w
       = attempt_loop py svc chunk retry_count [a + length ts..<nat retry_count]
           (add_events (waits chunk ts) (w\<lparr>sent := sent w + length ts\<rparr>))"
  using assms
proof (induction ts arbitrary: a w)
  case Nil
  then show ?case by (simp add: waits_def add_events_Nil)
next
  case (Cons t ts)
  have lt: "a < nat retry_count" and notlast: "int a \<noteq> retry_count - 1"
    using Cons.prems(1) by auto
  have up: "[a..<nat retry_count] = a # [Suc a..<nat retry_count]"
    using lt by (simp add: upt_conv_Cons)
  have t: "rate_limited py svc chunk (sent w) t"
    using Cons.prems(2) [rule_format, of 0] by simp
  define w2 where "w2 = add_events (waits chunk [t]) (w\<lparr>sent := sent w + 1\<rparr>)"
  have step: "attempt_loop py svc chunk retry_count [a..<nat retry_count] w
            = attempt_loop py svc chunk retry_count [Suc a..<nat retry_count] w2"
    unfolding up w2_def using attempt_loop_rate_limited_step [OF t] notlast by simp
  have s2: "sent w2 = sent w + 1"
    by (simp add: w2_def sent_add_events)
  have "\<forall>j < length ts. rate_limited py svc chunk (sent w2 + j) (ts ! j)"
  proof (intro allI impI)
    fix j assume "j < length ts"
    then show "rate_limited py svc chunk (sent w2 + j) (ts ! j)"
      using Cons.prems(2) [rule_format, of "Suc j"] s2 by simp
  qed
  moreover have "Suc a + length ts < nat retry_count"
    using Cons.prems(1) by simp
  ultimately have "attempt_loop py svc chunk retry_count [Suc a..<nat retry_count] w2
       = attempt_loop py svc chunk retry_count [Suc a + length ts..<nat retry_count]
           (add_events (waits chunk ts) (w2\<lparr>sent := sent w2 + length ts\<rparr>))"
    by (intro Cons.IH)
  moreover have "add_events (waits chunk ts) (w2\<lparr>sent := sent w2 + length ts\<rparr>)
      = add_events (waits chunk (t # ts)) (w\<lparr>sent := sent w + length (t # ts)\<rparr>)"
    by (simp add: w2_def add_events_def waits_def)
  ultimately show ?case
    unfolding step by simp
qed

lemma attempt_loop_last_rate_limited:
  assumes "0 < retry_count" "a = nat retry_count - 1"
    and "rate_limited py svc chunk (sent w) t"
  shows "attempt_loop py svc chunk retry_count [a..<nat retry_count] w
       = (Inr [], add_events (waits chunk [t]) (w\<lparr>sent := sent w + 1\<rparr>))"
proof -
  have up: "[a..<nat retry_count] = [a]"
    using assms(1,2) by (simp add: upt_conv_Cons)
  have "int a = retry_count - 1"
    using assms(1,2) by simp
  then show ?thesis
    unfolding up using attempt_loop_rate_limited_step [OF assms(3)] by simp
qed

lemma attempt_loop_success:
  assumes "svc (sent w) chunk = Inr r" "status_code r = 200" "content r = Some c"
  shows "attempt_loop py svc chunk retry_count (a # rest) w
       = (Inr (split_py NL (strip_py c)), add_events [Request chunk] (w\<lparr>sent := sent w + 1\<rparr>))"
  using assms by (simp add: Let_def)

lemma attempt_loop_other:
  assumes "svc (sent w) chunk = Inr r" "status_code r \<noteq> 200" "status_code r \<noteq> 429"
  shows "attempt_loop py svc chunk retry_count (a # rest) w
       = (Inr [], add_events [Request chunk, St_error_api (status_code r), St_error_body (body_text r)]
                    (w\<lparr>sent := sent w + 1\<rparr>))"
  using assms by (simp add: Let_def add_events_def)

lemma attempt_loop_sent:
  "sent (snd (attempt_loop py svc chunk retry_count as w)) \<le> sent w + length as"
proof (induction as arbitrary: w)
  case Nil
  then show ?case by simp
next
  case (Cons a as)
  have ih: "sent (snd (attempt_loop py svc chunk retry_count as w'))
         \<le> Suc (sent w + length as)" if "sent w' = Suc (sent w)" for w'
    using Cons.IH [of w'] that by simp
  show ?case
    by (auto simp: Let_def sent_add_events split: sum.splits option.splits intro!: ih)
qed

lemma get_key_phrases_exhausted:
  assumes "length ts = nat retry_count"
    and "\<forall>j < length ts. rate_limited py svc chunk (sent w + j) (ts ! j)"
  shows "get_key_phrases_for_chunk py svc chunk retry_count w
       = (Inr [], add_events (waits chunk ts) (w\<lparr>sent := sent w + length ts\<rparr>))"
proof (cases "ts = []")
  case True
  then show ?thesis
    using assms(1) by (simp add: get_key_phrases_for_chunk_def waits_def add_events_def)
next
  case False
  define n where "n = nat retry_count"
  define w1 where "w1 = add_events (waits chunk (butlast ts)) (w\<lparr>sent := sent w + length (butlast ts)\<rparr>)"
  have "0 < length ts" using False by simp
  then have n: "0 < n" "length ts = n" "0 < retry_count"
    using assms(1) by (simp_all add: n_def)
  have ts: "ts = butlast ts @ [last ts]"
    using False by simp
  have "\<forall>j < length (butlast ts). rate_limited py svc chunk (sent w + j) (butlast ts ! j)"
    using assms(2) by (simp add: nth_butlast)
  moreover have "0 + length (butlast ts) < nat retry_count"
    using n by (simp add: n_def)
  ultimately have "attempt_loop py svc chunk retry_count [0..<nat retry_count] w
      = attempt_loop py svc chunk retry_count [0 + length (butlast ts)..<nat retry_count] w1"
    unfolding w1_def by (intro attempt_loop_rate_limited)
  moreover have "rate_limited py svc chunk (sent w1) (last ts)"
    using assms(2) [rule_format, of "length ts - 1"] False n
    by (simp add: w1_def sent_add_events last_conv_nth)
  then have "attempt_loop py svc chunk retry_count [0 + length (butlast ts)..<nat retry_count] w1
      = (Inr [], add_events (waits chunk [last ts]) (w1\<lparr>sent := sent w1 + 1\<rparr>))"
    using n by (intro attempt_loop_last_rate_limited) (simp_all add: n_def)
  moreover have "add_events (waits chunk [last ts]) (w1\<lparr>sent := sent w1 + 1\<rparr>)
      = add_events (waits chunk (butlast ts @ [last ts])) (w\<lparr>sent := sent w + length ts\<rparr>)"
    using n False unfolding w1_def waits_append by (simp add: add_events_def)
  ultimately show ?thesis
    unfolding get_key_phrases_for_chunk_def using ts by simp
qed

lemma get_key_phrases_after_waits:
  assumes "length ts < nat retry_count"
    and "\<forall>j < length ts. rate_limited py svc chunk (sent w + j) (ts ! j)"
  shows "get_key_phrases_for_chunk py svc chunk retry_count w
       = attempt_loop py svc chunk retry_count (length ts # [Suc (length ts)..<nat retry_count])
           (add_events (waits chunk ts) (w\<lparr>sent := sent w + length ts\<rparr>))"
proof -
  have "0 + length ts < nat retry_count" using assms(1) by simp
  then have "attempt_loop py svc chunk retry_count [0..<nat retry_count] w
      = attempt_loop py svc chunk retry_count [0 + length ts..<nat retry_count]
          (add_events (waits chunk ts) (w\<lparr>sent := sent w + length ts\<rparr>))"
    using assms(2) by (intro attempt_loop_rate_limited)
  moreover have "[0 + length ts..<nat retry_count] = length ts # [Suc (length ts)..<nat retry_count]"
    using assms(1) by (simp add: upt_conv_Cons)
  ultimately show ?thesis
    unfolding get_key_phrases_for_chunk_def by simp
qed

lemma get_key_phrases_retry_success:
  assumes "length ts < nat retry_count"
    and "\<forall>j < length ts. rate_limited py svc chunk (sent w + j) (ts ! j)"
    and "svc (sent w + length ts) chunk = Inr r" "status_code r = 200" "content r = Some c"
  shows "get_key_phrases_for_chunk py svc chunk retry_count w
       = (Inr (split_py NL (strip_py c)),
          add_events (waits chunk ts @ [Request chunk]) (w\<lparr>sent := sent w + length ts + 1\<rparr>))"
proof -
  define w1 where "w1 = add_events (waits chunk ts) (w\<lparr>sent := sent w + length ts\<rparr>)"
  have "svc (sent w1) chunk = Inr r"
    using assms(3) by (simp add: w1_def sent_add_events)
  then have "attempt_loop py svc chunk retry_count (length ts # [Suc (length ts)..<nat retry_count]) w1
      = (Inr (split_py NL (strip_py c)), add_events [Request chunk] (w1\<lparr>sent := sent w1 + 1\<rparr>))"
    using assms(4,5) by (intro attempt_loop_success)
  moreover have "add_events [Request chunk] (w1\<lparr>sent := sent w1 + 1\<rparr>)
      = add_events (waits chunk ts @ [Request chunk]) (w\<lparr>sent := sent w + length ts + 1\<rparr>)"
    unfolding w1_def by (simp add: add_events_def)
  ultimately show ?thesis
    using get_key_phrases_after_waits [OF assms(1,2)] unfolding w1_def by simp
qed

lemma get_key_phrases_retry_other:
  assumes "length ts < nat retry_count"
    and "\<forall>j < length ts. rate_limited py svc chunk (sent w + j) (ts ! j)"
    and "svc (sent w + length ts) chunk = Inr r" "status_code r \<noteq> 200" "status_code r \<noteq> 429"
  shows "get_key_phrases_for_chunk py svc chunk retry_count w
       = (Inr [],
          add_events (waits chunk ts @ [Request chunk, St_error_api (status_code r),
                                        St_error_body (body_text r)])
            (w\<lparr>sent := sent w + length ts + 1\<rparr>))"
proof -
  define w1 where "w1 = add_events (waits chunk ts) (w\<lparr>sent := sent w + length ts\<rparr>)"
  have "svc (sent w1) chunk = Inr r"
    using assms(3) by (simp add: w1_def sent_add_events)
  then have "attempt_loop py svc chunk retry_count (length ts # [Suc (length ts)..<nat retry_count]) w1
      = (Inr [], add_events [Request chunk, St_error_api (status_code r), St_error_body (body_text r)]
                   (w1\<lparr>sent := sent w1 + 1\<rparr>))"
    using assms(4,5) by (intro attempt_loop_other)
  moreover have "add_events [Request chunk, St_error_api (status_code r), St_error_body (body_text r)]
                   (w1\<lparr>sent := sent w1 + 1\<rparr>)
      = add_events (waits chunk ts @ [Request chunk, St_error_api (status_code r),
                                      St_error_body (body_text r)])
          (w\<lparr>sent := sent w + length ts + 1\<rparr>)"
    unfolding w1_def by (simp add: add_events_def)
  ultimately show ?thesis
    using get_key_phrases_after_waits [OF assms(1,2)] unfolding w1_def by simp
qed

lemma split_py_single:
  "\<forall>p \<in> set (split_py [x] t). x \<notin> set p"
proof (induction "[x]" t rule: split_py.induct)
  case 1
  then show ?case by (simp add: split_py.simps)
next
  case (2 c cs)
  show ?case
  proof (cases "c = x")
    case True
    then show ?thesis using 2(1) by (simp add: split_py.simps)
  next
    case False
    then have "split_py [x] (c # cs) = cons_hd c (split_py [x] cs)"
      by (simp add: split_py_Cons_other)
    then show ?thesis
      using 2(2) False split_py_not_Nil [of "[x]" cs]
      by (cases "split_py [x] cs") (auto simp: cons_hd_def)
  qed
qed

lemma last_dropWhile: "dropWhile P xs \<noteq> [] \<Longrightarrow> last (dropWhile P xs) = last xs"
  by (induction xs) (auto split: if_splits)

lemma strip_py_ends:
  "strip_py c = [] \<or> (\<not> is_space (hd (strip_py c)) \<and> \<not> is_space (last (strip_py c)))"
proof (cases "strip_py c = []")
  case True
  then show ?thesis by simp
next
  case False
  define d where "d = dropWhile is_space c"
  define r where "r = dropWhile is_space (rev d)"
  have s: "strip_py c = rev r" by (simp add: strip_py_def d_def r_def)
  have r: "r \<noteq> []" using False s by simp
  then have d: "d \<noteq> []" unfolding r_def by auto
  have "\<not> is_space (hd r)"
    using r unfolding r_def by (rule hd_dropWhile)
  then have l: "\<not> is_space (last (strip_py c))"
    using r by (simp add: s last_rev)
  have "last r = last (rev d)"
    using r unfolding r_def by (rule last_dropWhile)
  then have "hd (strip_py c) = hd d"
    using r d by (simp add: s hd_rev last_rev)
  moreover have "\<not> is_space (hd d)"
    using d unfolding d_def by (rule hd_dropWhile)
  ultimately show ?thesis using l by simp
qed

lemma match_wait_Some:
  assumes "match_wait s = Some (ip, fp)"
  shows "\<exists>post. s = ''try again in '' @ ip @ ''.'' @ fp @ ''s'' @ post
           \<and> ip \<noteq> [] \<and> fp \<noteq> [] \<and> (\<forall>c \<in> set (ip @ fp). is_digit c)"
proof -
  define r where "r = drop (length ''try again in '') s"
  have pre: "prefix ''try again in '' s"
    using assms unfolding match_wait_def by (simp split: if_splits)
  then have s: "s = ''try again in '' @ r"
    unfolding r_def by (metis append_eq_conv_conj prefix_def)
  obtain d r' where dr: "dropWhile is_digit r = d # r'"
    using assms pre unfolding match_wait_def r_def [symmetric] Let_def
    by (cases "dropWhile is_digit r") simp_all
  have m: "d = CHR ''.''" "takeWhile is_digit r \<noteq> []" "takeWhile is_digit r' \<noteq> []"
    "prefix ''s'' (dropWhile is_digit r')"
    "ip = takeWhile is_digit r" "fp = takeWhile is_digit r'"
    using assms pre dr unfolding match_wait_def r_def [symmetric] Let_def
    by (simp_all split: if_splits)
  obtain post where post: "dropWhile is_digit r' = ''s'' @ post"
    using m(4) by (auto simp: prefix_def)
  have "r = ip @ d # r'"
    using takeWhile_dropWhile_id [of is_digit r] dr m(5) by simp
  moreover have "r' = fp @ ''s'' @ post"
    using takeWhile_dropWhile_id [of is_digit r'] post m(6) by simp
  ultimately have "s = ''try again in '' @ ip @ ''.'' @ fp @ ''s'' @ post"
    using s m(1) by simp
  moreover have "\<forall>c \<in> set (ip @ fp). is_digit c"
    using m(5,6) by (auto dest: set_takeWhileD)
  ultimately show ?thesis using m(2,3,5,6) by blast
qed

lemma re_search_Some:
  "re_search m = Some (ip, fp) \<Longrightarrow>
     \<exists>pre post. m = pre @ ''try again in '' @ ip @ ''.'' @ fp @ ''s'' @ post
        \<and> ip \<noteq> [] \<and> fp \<noteq> [] \<and> (\<forall>c \<in> set (ip @ fp). is_digit c)"
proof (induction m)
  case Nil
  then show ?case by simp
next
  case (Cons c cs)
  show ?case
  proof (cases "match_wait (c # cs)")
    case None
    then have "re_search cs = Some (ip, fp)" using Cons.prems by simp
    then obtain pre post where
      "cs = pre @ ''try again in '' @ ip @ ''.'' @ fp @ ''s'' @ post
        \<and> ip \<noteq> [] \<and> fp \<noteq> [] \<and> (\<forall>c \<in> set (ip @ fp). is_digit c)"
      using Cons.IH by blast
    then have "c # cs = (c # pre) @ ''try again in '' @ ip @ ''.'' @ fp @ ''s'' @ post
        \<and> ip \<noteq> [] \<and> fp \<noteq> [] \<and> (\<forall>c \<in> set (ip @ fp). is_digit c)"
      by simp
    then show ?thesis by blast
  next
    case (Some g)
    then have "match_wait (c # cs) = Some (ip, fp)" using Cons.prems by simp
    then obtain post where
      "c # cs = [] @ ''try again in '' @ ip @ ''.'' @ fp @ ''s'' @ post
        \<and> ip \<noteq> [] \<and> fp \<noteq> [] \<and> (\<forall>c \<in> set (ip @ fp). is_digit c)"
      using match_wait_Some by fastforce
    then show ?thesis by blast
  qed
qed

lemma match_wait_complete:
  assumes "s = ''try again in '' @ ip @ ''.'' @ fp @ ''s'' @ post"
    and "ip \<noteq> []" "fp \<noteq> []" "\<forall>c \<in> set (ip @ fp). is_digit c"
  shows "match_wait s = Some (ip, fp)"
proof -
  have nd: "\<not> is_digit (CHR ''.'')" "\<not> is_digit (CHR ''s'')"
    by (simp_all add: is_digit_def)
  have ip: "\<forall>c \<in> set ip. is_digit c" and fp: "\<forall>c \<in> set fp. is_digit c"
    using assms(4) by simp_all
  have t1: "takeWhile is_digit (ip @ CHR ''.'' # fp @ CHR ''s'' # post) = ip"
    using ip nd(1) by (simp add: takeWhile_tail)
  have d1: "dropWhile is_digit (ip @ CHR ''.'' # fp @ CHR ''s'' # post) = CHR ''.'' # fp @ CHR ''s'' # post"
    using ip nd(1) by (simp add: dropWhile_append3)
  have t2: "takeWhile is_digit (fp @ CHR ''s'' # post) = fp"
    using fp nd(2) by (simp add: takeWhile_tail)
  have d2: "dropWhile is_digit (fp @ CHR ''s'' # post) = CHR ''s'' # post"
    using fp nd(2) by (simp add: dropWhile_append3)
  show ?thesis
    unfolding assms(1) match_wait_def
    using assms(2,3) by (simp add: t1 d1 t2 d2)
qed

lemma hint_at_match: "match_wait s = None \<longleftrightarrow> \<not> hint_at s"
proof
  assume n: "match_wait s = None"
  show "\<not> hint_at s"
  proof
    assume "hint_at s"
    then obtain ip fp post where "s = ''try again in '' @ ip @ ''.'' @ fp @ ''s'' @ post"
      "ip \<noteq> []" "fp \<noteq> []" "\<forall>c \<in> set (ip @ fp). is_digit c"
      unfolding hint_at_def by blast
    then have "match_wait s = Some (ip, fp)"
      by (rule match_wait_complete)
    then show False using n by simp
  qed
next
  assume h: "\<not> hint_at s"
  show "match_wait s = None"
  proof (cases "match_wait s")
    case None
    then show ?thesis .
  next
    case (Some g)
    then have "match_wait s = Some (fst g, snd g)" by simp
    then have "hint_at s"
      using match_wait_Some unfolding hint_at_def by blast
    then show ?thesis using h by simp
  qed
qed

lemma re_search_None: "re_search m = None \<longleftrightarrow> (\<forall>j < length m. \<not> hint_at (drop j m))"
proof (induction m)
  case Nil
  then show ?case by simp
next
  case (Cons c cs)
  have "re_search (c # cs) = None \<longleftrightarrow> match_wait (c # cs) = None \<and> re_search cs = None"
    by (simp split: option.splits)
  also have "\<dots> \<longleftrightarrow> \<not> hint_at (c # cs) \<and> (\<forall>j < length cs. \<not> hint_at (drop j cs))"
    using Cons.IH by (simp add: hint_at_match)
  also have "\<dots> \<longleftrightarrow> (\<forall>j < length (c # cs). \<not> hint_at (drop j (c # cs)))"
    by (simp add: All_less_Suc2)
  finally show ?case .
qed

lemma re_search_leftmost:
  assumes "match_wait s = Some g"
    and "\<forall>j < length pre. \<not> hint_at (drop j (pre @ s))"
  shows "re_search (pre @ s) = Some g"
  using assms(2)
proof (induction pre)
  case Nil
  have "s \<noteq> []"
    using assms(1) by (auto simp: match_wait_def)
  then show ?case
    using assms(1) by (cases s) simp_all
next
  case (Cons c pre)
  have "\<not> hint_at (c # pre @ s)"
    using Cons.prems [rule_format, of 0] by simp
  then have n: "match_wait (c # pre @ s) = None"
    by (simp add: hint_at_match)
  have "\<forall>j < length pre. \<not> hint_at (drop j (pre @ s))"
  proof (intro allI impI)
    fix j assume "j < length pre"
    then show "\<not> hint_at (drop j (pre @ s))"
      using Cons.prems [rule_format, of "Suc j"] by simp
  qed
  then have "re_search (pre @ s) = Some g"
    by (rule Cons.IH)
  then show ?case
    using n by simp
qed

lemma digits_value_positional:
  "digits_value ds acc
   = acc * 10 ^ length ds
     + (\<Sum>i < length ds. (of_char (ds ! i) - 48 :: nat) * 10 ^ (length ds - Suc i))"
proof (induction ds arbitrary: acc)
  case Nil
  then show ?case by simp
next
  case (Cons d ds)
  have "(\<Sum>i < Suc (length ds). (of_char ((d # ds) ! i) - 48 :: nat) * 10 ^ (Suc (length ds) - Suc i))
      = (of_char d - 48) * 10 ^ length ds
        + (\<Sum>i < length ds. (of_char (ds ! i) - 48) * 10 ^ (length ds - Suc i))"
    by (simp add: sum.lessThan_Suc_shift del: sum.lessThan_Suc)
  then show ?case
    by (simp add: Cons.IH algebra_simps del: sum.lessThan_Suc)
qed

lemma fraction_positional:
  "(of_nat (\<Sum>i < n. d i * 10 ^ (n - Suc i)) :: rat) / 10 ^ n = (\<Sum>i < n. of_nat (d i) / 10 ^ Suc i)"
proof -
  have "(of_nat (d i * 10 ^ (n - Suc i)) :: rat) / 10 ^ n = of_nat (d i) / 10 ^ Suc i" if "i < n" for i
  proof -
    have "n = (n - Suc i) + Suc i" using that by simp
    then have "(10::rat) ^ n = 10 ^ (n - Suc i) * 10 ^ Suc i"
      by (metis power_add)
    then show ?thesis by simp
  qed
  then have "(\<Sum>i < n. (of_nat (d i * 10 ^ (n - Suc i)) :: rat) / 10 ^ n)
           = (\<Sum>i < n. of_nat (d i) / 10 ^ Suc i)"
    by (intro sum.cong) simp_all
  then show ?thesis
    by (simp add: sum_divide_distrib)
qed

lemma decimal_value_positional:
  "decimal_value (ip, fp)
   = (\<Sum>i < length ip. of_nat (of_char (ip ! i) - 48) * 10 ^ (length ip - Suc i))
     + (\<Sum>i < length fp. of_nat (of_char (fp ! i) - 48) / 10 ^ Suc i)"
proof -
  have "(of_nat (digits_value fp 0) :: rat) / 10 ^ length fp
      = (\<Sum>i < length fp. of_nat (of_char (fp ! i) - 48) / 10 ^ Suc i)"
    using fraction_positional [of "\<lambda>i. of_char (fp ! i) - 48" "length fp"]
    by (simp add: digits_value_positional)
  then show ?thesis
    by (simp add: decimal_value_def digits_value_positional)
qed

lemma wait_time_of_hint:
  assumes "error_message r = Some (pre @ ''try again in '' @ ip @ ''.'' @ fp @ ''s'' @ post)"
    and "ip \<noteq> []" "fp \<noteq> []" "\<forall>c \<in> set (ip @ fp). is_digit c"
    and "\<forall>j < length pre. \<not> hint_at (drop j (pre @ ''try again in '' @ ip @ ''.'' @ fp @ ''s'' @ post))"
  shows "wait_time_of py r = float_add py (fl_round py (decimal_value (ip, fp))) 1"
proof -
  have "match_wait (''try again in '' @ ip @ ''.'' @ fp @ ''s'' @ post) = Some (ip, fp)"
    using assms(2-4) by (intro match_wait_complete) simp_all
  then have "re_search (pre @ ''try again in '' @ ip @ ''.'' @ fp @ ''s'' @ post) = Some (ip, fp)"
    using assms(5) by (rule re_search_leftmost)
  then show ?thesis
    using assms(1) by (simp add: wait_time_of_def float_py_def del: re_search.simps)
qed

lemma wait_time_of_default:
  assumes "error_message r = None
         \<or> (\<exists>m. error_message r = Some m \<and> (\<forall>j < length m. \<not> hint_at (drop j m)))"
  shows "wait_time_of py r = Some 10"
proof (cases "error_message r")
  case None
  then show ?thesis by (simp add: wait_time_of_def)
next
  case (Some m)
  then have "\<forall>j < length m. \<not> hint_at (drop j m)"
    using assms by auto
  then have "re_search m = None"
    by (simp add: re_search_None)
  then show ?thesis
    using Some by (simp add: wait_time_of_def)
qed

lemma process_chunks_step:
  assumes "get_key_phrases_for_chunk py svc chunk 3
             (add_events [St_progress (i + 1) n, St_info_processing (i + 1) n] w) = (Inr ps, w')"
  shows "process_chunks py svc n ((i, chunk) # rest) acc w
       = process_chunks py svc n rest (acc @ ps)
           (if int i < int n - 1 then add_events [Sleep 1] w' else w')"
  using assms by simp

lemma get_key_phrases_overflow:
  assumes "length ts < nat retry_count"
    and "\<forall>j < length ts. rate_limited py svc chunk (sent w + j) (ts ! j)"
    and "svc (sent w + length ts) chunk = Inr r" "status_code r = 429"
    and "wait_time_of py r = None \<or> (\<exists>t. wait_time_of py r = Some t \<and> sleep_raises py t)"
  shows "get_key_phrases_for_chunk py svc chunk retry_count w
       = (Inl Overflow_error,
          add_events (waits chunk ts @ [Request chunk, St_warning_rate_limit (wait_time_of py r)])
            (w\<lparr>sent := sent w + length ts + 1\<rparr>))"
proof -
  define w1 where "w1 = add_events (waits chunk ts) (w\<lparr>sent := sent w + length ts\<rparr>)"
  have "svc (sent w1) chunk = Inr r"
    using assms(3) by (simp add: w1_def sent_add_events)
  then have "attempt_loop py svc chunk retry_count (length ts # [Suc (length ts)..<nat retry_count]) w1
      = (Inl Overflow_error,
         add_events [Request chunk, St_warning_rate_limit (wait_time_of py r)] (w1\<lparr>sent := sent w1 + 1\<rparr>))"
    using assms(4,5) by (auto simp: Let_def add_events_def)
  moreover have "add_events [Request chunk, St_warning_rate_limit (wait_time_of py r)] (w1\<lparr>sent := sent w1 + 1\<rparr>)
      = add_events (waits chunk ts @ [Request chunk, St_warning_rate_limit (wait_time_of py r)])
          (w\<lparr>sent := sent w + length ts + 1\<rparr>)"
    unfolding w1_def by (simp add: add_events_def)
  ultimately show ?thesis
    using get_key_phrases_after_waits [OF assms(1,2)] unfolding w1_def by simp
qed

text \<open>
  Claim C6, as the code has it: \<open>content.strip().split('\n')\<close> trims the content as a
  whole and then cuts it at every newline. For a successful response the client makes one
  request and returns the lines of the trimmed content: joined by newlines they give the
  trimmed content back, no phrase contains a newline, and the trimmed content neither
  starts nor ends with white space. White space around an inner line end stays in the
  phrases (each phrase is trimmed later, by the highlighter).
\<close>

theorem get_key_phrases_success:
  assumes "0 < retry_count" and "svc (sent w) chunk = Inr response"
    and "status_code response = 200" and "content response = Some c"
  shows "get_key_phrases_for_chunk py svc chunk retry_count w
           = (Inr (split_py NL (strip_py c)), add_events [Request chunk] (w\<lparr>sent := sent w + 1\<rparr>))
       \<and> join_py NL (split_py NL (strip_py c)) = strip_py c
       \<and> (\<forall>p \<in> set (split_py NL (strip_py c)). CHR 0x0A \<notin> set p)
       \<and> (strip_py c = [] \<or> (\<not> is_space (hd (strip_py c)) \<and> \<not> is_space (last (strip_py c))))"
proof -
  have "[0..<nat retry_count] = 0 # [1..<nat retry_count]"
    using assms(1) by (simp add: upt_conv_Cons)
  then have "get_key_phrases_for_chunk py svc chunk retry_count w
           = (Inr (split_py NL (strip_py c)), add_events [Request chunk] (w\<lparr>sent := sent w + 1\<rparr>))"
    unfolding get_key_phrases_for_chunk_def
    using attempt_loop_success [where svc = svc and w = w and chunk = chunk and r = response and c = c] assms(2-4)
    by simp
  moreover have "join_py NL (split_py NL (strip_py c)) = strip_py c"
    by (rule join_split_py) (simp add: NL_def)
  moreover have "\<forall>p \<in> set (split_py NL (strip_py c)). CHR 0x0A \<notin> set p"
    unfolding NL_def by (rule split_py_single)
  ultimately show ?thesis
    using strip_py_ends [of c] by blast
qed

theorem get_key_phrases_success_witness:
  "get_key_phrases_for_chunk ideal_platform (scripted [] (ok_response '' a \<newline>b  \<newline>'')) ''chunk'' 3 world0
     = (Inr [''a '', ''b''], \<lparr>sent = 1, trace = [Request ''chunk'']\<rparr>)
   \<and> join_py NL [''a '', ''b''] = ''a \<newline>b''"
proof -
  have s: "strip_py '' a \<newline>b  \<newline>'' = ''a \<newline>b''"
    by (simp add: strip_py_def is_space_def)
  have sp: "split_py [CHR 0x0A] ''a \<newline>b'' = [''a '', ''b'']"
    by (simp add: split_py.simps)
  show ?thesis
    using get_key_phrases_success [where retry_count = 3 and w = world0 and chunk = "''chunk''"
        and svc = "scripted [] (ok_response '' a \<newline>b  \<newline>'')"
        and response = "ok_response '' a \<newline>b  \<newline>''" and c = "'' a \<newline>b  \<newline>''"]
    by (simp add: scripted_def ok_response_def world0_def add_events_def s sp NL_def)
qed

text \<open>
  The claim as stated (each returned phrase trimmed) fails on the content
  \<open>"a \nb"\<close>: the first phrase keeps its trailing blank.
\<close>

theorem get_key_phrases_success_counterexample:
  "fst (get_key_phrases_for_chunk ideal_platform (scripted [] (ok_response ''a \<newline>b'')) ''chunk'' 3 world0)
     = Inr [''a '', ''b'']
   \<and> strip_py ''a '' = ''a''
   \<and> strip_py ''a '' \<noteq> ''a ''"
proof -
  have s: "strip_py ''a \<newline>b'' = ''a \<newline>b''" "strip_py ''a '' = ''a''"
    by (simp_all add: strip_py_def is_space_def)
  have sp: "split_py [CHR 0x0A] ''a \<newline>b'' = [''a '', ''b'']"
    by (simp add: split_py.simps)
  have "[0..<nat 3] = [0, 1, 2]" by (simp add: upt_conv_Cons)
  then show ?thesis
    by (simp add: get_key_phrases_for_chunk_def scripted_def ok_response_def world0_def
        add_events_def s sp Let_def NL_def)
qed

text \<open>
  Claim C8: a response that is neither 200 nor 429 ends the work on the chunk, at whichever
  attempt it arrives. An attempt is reached only through rate-limited attempts before it
  (every other answer returns or raises); after any number of those, the client makes
  the one request that is answered with the error, reports the status and the body
  through \<open>st.error\<close>, and returns the empty list without an exception and without
  another request. The loop of the pipeline goes on with the next chunk, the accumulated
  phrases unchanged.
\<close>

theorem other_status_no_retry:
  assumes "length ts < nat retry_count"
    and "\<forall>j < length ts. rate_limited py svc chunk (sent w + j) (ts ! j)"
    and "svc (sent w + length ts) chunk = Inr response"
    and "status_code response \<noteq> 200" and "status_code response \<noteq> 429"
  shows "get_key_phrases_for_chunk py svc chunk retry_count w
           = (Inr [], add_events (waits chunk ts @ [Request chunk, St_error_api (status_code response),
                                                   St_error_body (body_text response)])
                        (w\<lparr>sent := sent w + length ts + 1\<rparr>))
       \<and> (length ts < 3
          \<longrightarrow> process_chunks py svc len_chunks ((i, chunk) # rest) all_key_phrases w
            = process_chunks py svc len_chunks rest all_key_phrases
               ((if int i < int len_chunks - 1 then add_events [Sleep 1] else id)
                  (add_events ([St_progress (i + 1) len_chunks, St_info_processing (i + 1) len_chunks]
                               @ waits chunk ts
                               @ [Request chunk, St_error_api (status_code response),
                                  St_error_body (body_text response)])
                     (w\<lparr>sent := sent w + length ts + 1\<rparr>))))"
proof -
  define w0 where "w0 = add_events [St_progress (i + 1) len_chunks, St_info_processing (i + 1) len_chunks] w"
  define w' where "w' = add_events ([St_progress (i + 1) len_chunks, St_info_processing (i + 1) len_chunks]
                               @ waits chunk ts
                               @ [Request chunk, St_error_api (status_code response),
                                  St_error_body (body_text response)])
                     (w\<lparr>sent := sent w + length ts + 1\<rparr>)"
  have s0: "sent w0 = sent w"
    by (simp add: w0_def sent_add_events)
  have g: "get_key_phrases_for_chunk py svc chunk retry_count w
           = (Inr [], add_events (waits chunk ts @ [Request chunk, St_error_api (status_code response),
                                                   St_error_body (body_text response)])
                        (w\<lparr>sent := sent w + length ts + 1\<rparr>))"
    using assms by (rule get_key_phrases_retry_other)
  have p: "process_chunks py svc len_chunks ((i, chunk) # rest) all_key_phrases w
            = process_chunks py svc len_chunks rest all_key_phrases
               ((if int i < int len_chunks - 1 then add_events [Sleep 1] else id) w')"
    if lt: "length ts < 3"
  proof -
    have "get_key_phrases_for_chunk py svc chunk 3 w0
        = (Inr [], add_events (waits chunk ts @ [Request chunk, St_error_api (status_code response),
                                                St_error_body (body_text response)])
                     (w0\<lparr>sent := sent w0 + length ts + 1\<rparr>))"
      using lt assms(2-5) unfolding s0 [symmetric]
      by (intro get_key_phrases_retry_other) simp_all
    moreover have "add_events (waits chunk ts @ [Request chunk, St_error_api (status_code response),
                                                St_error_body (body_text response)])
                     (w0\<lparr>sent := sent w0 + length ts + 1\<rparr>) = w'"
      by (simp add: w0_def w'_def add_events_def)
    ultimately have "get_key_phrases_for_chunk py svc chunk 3
          (add_events [St_progress (i + 1) len_chunks, St_info_processing (i + 1) len_chunks] w)
        = (Inr [], w')"
      unfolding w0_def by simp
    then have "process_chunks py svc len_chunks ((i, chunk) # rest) all_key_phrases w
        = process_chunks py svc len_chunks rest (all_key_phrases @ [])
            (if int i < int len_chunks - 1 then add_events [Sleep 1] w' else w')"
      by (rule process_chunks_step)
    then show ?thesis by simp
  qed
  show ?thesis
    using g p unfolding w'_def by blast
qed

theorem other_status_no_retry_witness:
  "get_key_phrases_for_chunk ideal_platform
     (scripted [error_response 429 ''Too many requests'', error_response 500 ''down'']
        (ok_response ''phrase one'')) ''c1'' 3 world0
   = (Inr [],
      \<lparr>sent = 2,
         trace = [Request ''c1'', St_warning_rate_limit (Some 10), Sleep 10,
                  Request ''c1'', St_error_api 500, St_error_body ''down'']\<rparr>)
   \<and> process_chunks ideal_platform
       (scripted [error_response 429 ''Too many requests'', error_response 500 ''down'']
          (ok_response ''phrase one'')) 2
       [(0, ''c1''), (1, ''c2'')] [] world0
   = (Inr [''phrase one''],
      \<lparr>sent = 3,
         trace = [St_progress 1 2, St_info_processing 1 2,
                  Request ''c1'', St_warning_rate_limit (Some 10), Sleep 10,
                  Request ''c1'', St_error_api 500, St_error_body ''down'', Sleep 1,
                  St_progress 2 2, St_info_processing 2 2, Request ''c2'']\<rparr>)"
proof -
  define svc where "svc = scripted [error_response 429 ''Too many requests'', error_response 500 ''down'']
          (ok_response ''phrase one'')"
  have m: "re_search ''Too many requests'' = None"
    by (simp add: match_wait_def)
  have r: "\<forall>j < length [10 :: rat]. rate_limited ideal_platform svc ''c1'' (sent world0 + j) ([10] ! j)"
    by (simp add: rate_limited_def svc_def scripted_def error_response_def world0_def
        wait_time_of_def m ideal_platform_def del: re_search.simps)
  have e: "svc (sent world0 + length [10 :: rat]) ''c1'' = Inr (error_response 500 ''down'')"
    by (simp add: svc_def scripted_def world0_def)
  have s: "strip_py ''phrase one'' = ''phrase one''"
    by (simp add: strip_py_def is_space_def)
  have sp: "split_py [CHR 0x0A] ''phrase one'' = [''phrase one'']"
    by (simp add: split_py.simps)
  define w2 where "w2 = \<lparr>sent = Suc (Suc 0),
         trace = [St_progress 1 2, St_info_processing 1 2,
                  Request ''c1'', St_warning_rate_limit (Some 10), Sleep 10,
                  Request ''c1'', St_error_api 500, St_error_body ''down'', Sleep 1]\<rparr>"
  have l: "process_chunks ideal_platform svc 2 [(1, ''c2'')] [] w2
         = (Inr [''phrase one''],
            \<lparr>sent = 3,
               trace = [St_progress 1 2, St_info_processing 1 2,
                        Request ''c1'', St_warning_rate_limit (Some 10), Sleep 10,
                        Request ''c1'', St_error_api 500, St_error_body ''down'', Sleep 1,
                        St_progress 2 2, St_info_processing 2 2, Request ''c2'']\<rparr>)"
    by (simp add: w2_def get_key_phrases_for_chunk_def upt_conv_Cons svc_def scripted_def
        ok_response_def add_events_def s sp NL_def Let_def)
  have t: "get_key_phrases_for_chunk ideal_platform svc ''c1'' 3 world0
         = (Inr [],
            \<lparr>sent = Suc (Suc 0),
               trace = [Request ''c1'', St_warning_rate_limit (Some 10), Sleep 10,
                        Request ''c1'', St_error_api 500, St_error_body ''down'']\<rparr>)"
    and p: "process_chunks ideal_platform svc 2 [(0, ''c1''), (1, ''c2'')] [] world0
         = process_chunks ideal_platform svc 2 [(1, ''c2'')] [] w2"
    using other_status_no_retry [where py = ideal_platform and svc = svc and chunk = "''c1''"
        and ts = "[10]" and retry_count = 3 and w = world0 and response = "error_response 500 ''down''"
        and len_chunks = 2 and i = 0 and rest = "[(1, ''c2'')]" and all_key_phrases = "[]", OF _ r e]
    by (simp_all add: error_response_def waits_def add_events_def world0_def w2_def
        del: process_chunks.simps)
  show ?thesis
    unfolding svc_def [symmetric] t p l by simp
qed

text \<open>
  Claim C3, as the code has it. The client never makes more requests for a chunk than
  \<open>retry_count\<close>. When every attempt is rate-limited it waits after each of them and
  returns the empty list without an exception, and the loop of the pipeline (where
  \<open>retry_count\<close> is 3) goes on with the next chunk; when an attempt after some
  rate-limited ones succeeds, its phrases are returned after exactly those waits. The wait
  after a 429 response is read from its error message: when the message contains
  \<open>try again in <digits>.<digits>s\<close>, the leftmost such place gives the decimal numeral
  \<open>N\<close> (its value is spelled out digit by digit below) and the wait is \<open>float(N) + 1\<close>
  in floating point, which is \<open>N + 1\<close> when neither step rounds; when the message has
  no such place, or cannot be read, the wait is 10 seconds. All this is about attempts
  whose wait \<open>time.sleep\<close> accepts (\<open>rate_limited\<close>).
\<close>

theorem rate_limit_protocol:
  assumes "N = (\<Sum>i < length ip. of_nat (of_char (ip ! i) - 48 :: nat) * 10 ^ (length ip - Suc i))
             + (\<Sum>i < length fp. of_nat (of_char (fp ! i) - 48 :: nat) / 10 ^ Suc i)"
  shows "sent (snd (get_key_phrases_for_chunk py svc chunk retry_count w)) \<le> sent w + nat retry_count
   \<and> (length ts = nat retry_count
        \<and> (\<forall>j < length ts. rate_limited py svc chunk (sent w + j) (ts ! j))
      \<longrightarrow> get_key_phrases_for_chunk py svc chunk retry_count w
          = (Inr [], add_events (waits chunk ts) (w\<lparr>sent := sent w + length ts\<rparr>)))
   \<and> (length ts < nat retry_count
        \<and> (\<forall>j < length ts. rate_limited py svc chunk (sent w + j) (ts ! j))
        \<and> svc (sent w + length ts) chunk = Inr ok \<and> status_code ok = 200 \<and> content ok = Some c
      \<longrightarrow> get_key_phrases_for_chunk py svc chunk retry_count w
          = (Inr (split_py NL (strip_py c)),
             add_events (waits chunk ts @ [Request chunk]) (w\<lparr>sent := sent w + length ts + 1\<rparr>)))
   \<and> (length ts = 3
        \<and> (\<forall>j < length ts. rate_limited py svc chunk (sent w + j) (ts ! j))
      \<longrightarrow> process_chunks py svc len_chunks ((i, chunk) # rest) all_key_phrases w
          = process_chunks py svc len_chunks rest all_key_phrases
              ((if int i < int len_chunks - 1 then add_events [Sleep 1] else id)
                 (add_events ([St_progress (i + 1) len_chunks, St_info_processing (i + 1) len_chunks]
                              @ waits chunk ts)
                    (w\<lparr>sent := sent w + length ts\<rparr>))))
   \<and> (error_message r = Some (pre @ ''try again in '' @ ip @ ''.'' @ fp @ ''s'' @ post)
        \<and> ip \<noteq> [] \<and> fp \<noteq> [] \<and> (\<forall>c \<in> set (ip @ fp). is_digit c)
        \<and> (\<forall>j < length pre.
              \<not> hint_at (drop j (pre @ ''try again in '' @ ip @ ''.'' @ fp @ ''s'' @ post)))
      \<longrightarrow> wait_time_of py r = float_add py (fl_round py N) 1
          \<and> (fl_round py N = Some N \<and> fl_round py (N + 1) = Some (N + 1)
               \<longrightarrow> wait_time_of py r = Some (N + 1)))
   \<and> (error_message r = None
        \<or> (\<exists>m. error_message r = Some m \<and> (\<forall>j < length m. \<not> hint_at (drop j m)))
      \<longrightarrow> wait_time_of py r = Some 10)"
proof -
  have c1: "sent (snd (get_key_phrases_for_chunk py svc chunk retry_count w)) \<le> sent w + nat retry_count"
    unfolding get_key_phrases_for_chunk_def
    using attempt_loop_sent [of py svc chunk retry_count "[0..<nat retry_count]" w] by simp
  have c5: "process_chunks py svc len_chunks ((i, chunk) # rest) all_key_phrases w
          = process_chunks py svc len_chunks rest all_key_phrases
              ((if int i < int len_chunks - 1 then add_events [Sleep 1] else id)
                 (add_events ([St_progress (i + 1) len_chunks, St_info_processing (i + 1) len_chunks]
                              @ waits chunk ts)
                    (w\<lparr>sent := sent w + length ts\<rparr>)))"
    if len: "length ts = 3"
      and rl: "\<forall>j < length ts. rate_limited py svc chunk (sent w + j) (ts ! j)"
  proof -
    define w0 where "w0 = add_events [St_progress (i + 1) len_chunks, St_info_processing (i + 1) len_chunks] w"
    define w' where "w' = add_events ([St_progress (i + 1) len_chunks, St_info_processing (i + 1) len_chunks]
                              @ waits chunk ts) (w\<lparr>sent := sent w + length ts\<rparr>)"
    have s0: "sent w0 = sent w"
      by (simp add: w0_def sent_add_events)
    have "get_key_phrases_for_chunk py svc chunk 3 w0
        = (Inr [], add_events (waits chunk ts) (w0\<lparr>sent := sent w0 + length ts\<rparr>))"
      using len rl unfolding s0 [symmetric]
      by (intro get_key_phrases_exhausted) simp_all
    moreover have "add_events (waits chunk ts) (w0\<lparr>sent := sent w0 + length ts\<rparr>) = w'"
      by (simp add: w0_def w'_def add_events_def)
    ultimately have "get_key_phrases_for_chunk py svc chunk 3
          (add_events [St_progress (i + 1) len_chunks, St_info_processing (i + 1) len_chunks] w)
        = (Inr [], w')"
      unfolding w0_def by simp
    then have "process_chunks py svc len_chunks ((i, chunk) # rest) all_key_phrases w
        = process_chunks py svc len_chunks rest (all_key_phrases @ [])
            (if int i < int len_chunks - 1 then add_events [Sleep 1] w' else w')"
      by (rule process_chunks_step)
    then show ?thesis
      unfolding w'_def by simp
  qed
  have c6: "wait_time_of py r = float_add py (fl_round py N) 1
          \<and> (fl_round py N = Some N \<and> fl_round py (N + 1) = Some (N + 1)
               \<longrightarrow> wait_time_of py r = Some (N + 1))"
    if "error_message r = Some (pre @ ''try again in '' @ ip @ ''.'' @ fp @ ''s'' @ post)"
      and "ip \<noteq> []" "fp \<noteq> []" "\<forall>c \<in> set (ip @ fp). is_digit c"
      and "\<forall>j < length pre.
              \<not> hint_at (drop j (pre @ ''try again in '' @ ip @ ''.'' @ fp @ ''s'' @ post))"
  proof -
    have "wait_time_of py r = float_add py (fl_round py (decimal_value (ip, fp))) 1"
      using that by (rule wait_time_of_hint)
    then have "wait_time_of py r = float_add py (fl_round py N) 1"
      unfolding assms decimal_value_positional .
    then show ?thesis
      by (simp add: float_add_def)
  qed
  show ?thesis
    using c1 c5 c6
      get_key_phrases_exhausted [of ts retry_count py svc chunk w]
      get_key_phrases_retry_success [of ts retry_count py svc chunk w ok c]
      wait_time_of_default [of r py]
    by blast
qed

theorem rate_limit_protocol_witness:
  "get_key_phrases_for_chunk ideal_platform
     (scripted [error_response 429 ''Please try again in 2.50s.'',
                error_response 429 ''Too many requests'',
                error_response 429 ''try again in 7.25s or try again in 1.00s'']
        (ok_response ''phrase one''))
     ''chunk'' 3 world0
   = (Inr [],
      \<lparr>sent = 3,
         trace = [Request ''chunk'', St_warning_rate_limit (Some (7 / 2)), Sleep (7 / 2),
                  Request ''chunk'', St_warning_rate_limit (Some 10), Sleep 10,
                  Request ''chunk'', St_warning_rate_limit (Some (33 / 4)), Sleep (33 / 4)]\<rparr>)
   \<and> get_key_phrases_for_chunk ideal_platform
       (scripted [error_response 429 ''Please try again in 2.50s.''] (ok_response ''phrase one''))
       ''chunk'' 3 world0
   = (Inr [''phrase one''],
      \<lparr>sent = 2,
         trace = [Request ''chunk'', St_warning_rate_limit (Some (7 / 2)), Sleep (7 / 2),
                  Request ''chunk'']\<rparr>)
   \<and> process_chunks ideal_platform
       (scripted [error_response 429 ''Please try again in 2.50s.'',
                  error_response 429 ''Too many requests'',
                  error_response 429 ''try again in 7.25s or try again in 1.00s'']
          (ok_response ''phrase one''))
       2 [(0, ''chunk''), (1, ''next'')] [] world0
   = (Inr [''phrase one''],
      \<lparr>sent = 4,
         trace = [St_progress 1 2, St_info_processing 1 2,
                  Request ''chunk'', St_warning_rate_limit (Some (7 / 2)), Sleep (7 / 2),
                  Request ''chunk'', St_warning_rate_limit (Some 10), Sleep 10,
                  Request ''chunk'', St_warning_rate_limit (Some (33 / 4)), Sleep (33 / 4), Sleep 1,
                  St_progress 2 2, St_info_processing 2 2, Request ''next'']\<rparr>)
   \<and> wait_time_of ideal_platform (error_response 429 ''Please try again in 2.50s.'') = Some (7 / 2)
   \<and> wait_time_of ideal_platform (error_response 429 ''Too many requests'') = Some 10"
proof -
  define svc3 where "svc3 = scripted [error_response 429 ''Please try again in 2.50s.'',
                error_response 429 ''Too many requests'',
                error_response 429 ''try again in 7.25s or try again in 1.00s'']
        (ok_response ''phrase one'')"
  define svc1 where "svc1 = scripted [error_response 429 ''Please try again in 2.50s.'']
        (ok_response ''phrase one'')"
  have m: "re_search ''Please try again in 2.50s.'' = Some (''2'', ''50'')"
    "re_search ''Too many requests'' = None"
    "re_search ''try again in 7.25s or try again in 1.00s'' = Some (''7'', ''25'')"
    by (simp_all add: match_wait_def is_digit_def)
  have v: "decimal_value (''2'', ''50'') = 5 / 2" "decimal_value (''7'', ''25'') = 29 / 4"
    by (simp_all add: decimal_value_def)
  have wt: "wait_time_of ideal_platform (error_response 429 ''Please try again in 2.50s.'') = Some (7 / 2)"
    "wait_time_of ideal_platform (error_response 429 ''Too many requests'') = Some 10"
    "wait_time_of ideal_platform (error_response 429 ''try again in 7.25s or try again in 1.00s'')
       = Some (33 / 4)"
    by (simp_all add: wait_time_of_def error_response_def m v float_py_def float_add_def
        ideal_platform_def del: re_search.simps)
  have sl: "\<not> sleep_raises ideal_platform (7 / 2)" "\<not> sleep_raises ideal_platform 10"
    "\<not> sleep_raises ideal_platform (33 / 4)"
    by (simp_all add: ideal_platform_def)
  have r3: "\<forall>j < length [7 / 2, 10, 33 / 4 :: rat].
              rate_limited ideal_platform svc3 ''chunk'' (sent world0 + j) ([7 / 2, 10, 33 / 4] ! j)"
    using wt sl
    by (simp add: All_less_Suc2 rate_limited_def svc3_def scripted_def world0_def)
       (simp add: error_response_def)
  have r1: "\<forall>j < length [7 / 2 :: rat].
              rate_limited ideal_platform svc1 ''chunk'' (sent world0 + j) ([7 / 2] ! j)"
    using wt sl
    by (simp add: rate_limited_def svc1_def scripted_def world0_def) (simp add: error_response_def)
  have ok: "svc1 (sent world0 + length [7 / 2 :: rat]) ''chunk'' = Inr (ok_response ''phrase one'')"
    "status_code (ok_response ''phrase one'') = 200"
    "content (ok_response ''phrase one'') = Some ''phrase one''"
    by (simp_all add: svc1_def scripted_def world0_def ok_response_def)
  have s: "strip_py ''phrase one'' = ''phrase one''"
    by (simp add: strip_py_def is_space_def)
  have sp: "split_py NL ''phrase one'' = [''phrase one'']"
    by (simp add: split_py.simps NL_def)
  have n: "(5 / 2 :: rat)
         = (\<Sum>i < length ''2''. of_nat (of_char (''2'' ! i) - 48 :: nat) * 10 ^ (length ''2'' - Suc i))
           + (\<Sum>i < length ''50''. of_nat (of_char (''50'' ! i) - 48 :: nat) / 10 ^ Suc i)"
    by simp
  have h: "\<forall>j < length ''Please ''.
              \<not> hint_at (drop j (''Please '' @ ''try again in '' @ ''2'' @ ''.'' @ ''50'' @ ''s'' @ ''.''))"
    by (simp add: All_less_Suc2 hint_at_match [symmetric] match_wait_def)
  have nh: "\<forall>j < length ''Too many requests''. \<not> hint_at (drop j ''Too many requests'')"
    by (simp add: All_less_Suc2 hint_at_match [symmetric] match_wait_def)
  have e: "error_message (error_response 429 ''Please try again in 2.50s.'')
         = Some (''Please '' @ ''try again in '' @ ''2'' @ ''.'' @ ''50'' @ ''s'' @ ''.'')"
    "error_message (error_response 429 ''Too many requests'') = Some ''Too many requests''"
    by (simp_all add: error_response_def)
  have d: "\<forall>c \<in> set (''2'' @ ''50''). is_digit c"
    by (simp add: is_digit_def)
  have f: "fl_round ideal_platform (5 / 2) = Some (5 / 2)"
    "fl_round ideal_platform (5 / 2 + 1) = Some (5 / 2 + 1)"
    by (simp_all add: ideal_platform_def)
  have a: "get_key_phrases_for_chunk ideal_platform svc3 ''chunk'' 3 world0
         = (Inr [], add_events (waits ''chunk'' [7 / 2, 10, 33 / 4])
                      (world0\<lparr>sent := sent world0 + length [7 / 2, 10, 33 / 4 :: rat]\<rparr>))"
    using rate_limit_protocol [OF n, where py = ideal_platform and svc = svc3 and chunk = "''chunk''"
        and retry_count = 3 and w = world0 and ts = "[7 / 2, 10, 33 / 4]"] r3
    by simp
  have b: "get_key_phrases_for_chunk ideal_platform svc1 ''chunk'' 3 world0
         = (Inr (split_py NL (strip_py ''phrase one'')),
            add_events (waits ''chunk'' [7 / 2] @ [Request ''chunk''])
              (world0\<lparr>sent := sent world0 + length [7 / 2 :: rat] + 1\<rparr>))"
    using rate_limit_protocol [OF n, where py = ideal_platform and svc = svc1 and chunk = "''chunk''"
        and retry_count = 3 and w = world0 and ts = "[7 / 2]" and ok = "ok_response ''phrase one''"
        and c = "''phrase one''"] r1 ok
    by simp
  have c: "wait_time_of ideal_platform (error_response 429 ''Please try again in 2.50s.'')
         = Some (5 / 2 + 1)"
    using rate_limit_protocol [OF n, where py = ideal_platform
        and r = "error_response 429 ''Please try again in 2.50s.''"
        and pre = "''Please ''" and post = "''.''"] e(1) d h f
    by blast
  have g: "wait_time_of ideal_platform (error_response 429 ''Too many requests'') = Some 10"
    using rate_limit_protocol [OF n, where py = ideal_platform
        and r = "error_response 429 ''Too many requests''"] e(2) nh
    by blast
  define w2 where "w2 = \<lparr>sent = Suc (Suc (Suc 0)),
         trace = [St_progress 1 2, St_info_processing 1 2,
                  Request ''chunk'', St_warning_rate_limit (Some (7 / 2)), Sleep (7 / 2),
                  Request ''chunk'', St_warning_rate_limit (Some 10), Sleep 10,
                  Request ''chunk'', St_warning_rate_limit (Some (33 / 4)), Sleep (33 / 4),
                  Sleep 1]\<rparr>"
  have p: "process_chunks ideal_platform svc3 2 [(0, ''chunk''), (1, ''next'')] [] world0
         = process_chunks ideal_platform svc3 2 [(1, ''next'')] [] w2"
    using rate_limit_protocol [OF n, where py = ideal_platform and svc = svc3 and chunk = "''chunk''"
        and w = world0 and ts = "[7 / 2, 10, 33 / 4]" and len_chunks = 2 and i = 0
        and rest = "[(1, ''next'')]" and all_key_phrases = "[]"] r3
    by (simp add: waits_def add_events_def world0_def w2_def del: process_chunks.simps)
  have l: "process_chunks ideal_platform svc3 2 [(1, ''next'')] [] w2
         = (Inr [''phrase one''],
            \<lparr>sent = 4,
               trace = [St_progress 1 2, St_info_processing 1 2,
                        Request ''chunk'', St_warning_rate_limit (Some (7 / 2)), Sleep (7 / 2),
                        Request ''chunk'', St_warning_rate_limit (Some 10), Sleep 10,
                        Request ''chunk'', St_warning_rate_limit (Some (33 / 4)), Sleep (33 / 4),
                        Sleep 1, St_progress 2 2, St_info_processing 2 2, Request ''next'']\<rparr>)"
    by (simp add: w2_def get_key_phrases_for_chunk_def upt_conv_Cons svc3_def scripted_def
        ok_response_def add_events_def s sp [unfolded NL_def] NL_def Let_def)
  show ?thesis
    unfolding svc3_def [symmetric] svc1_def [symmetric] a b p l
    using c g by (simp add: s sp waits_def add_events_def world0_def)
qed

text \<open>
  The claim as stated fails in two ways. A hint without a decimal point is not matched
  by the pattern of the code: after \<open>try again in 30s\<close> the client waits the default 10
  seconds, not 31. And a wait that \<open>time.sleep\<close> refuses is not waited for: the call is
  outside the \<open>try\<close>, so that after \<open>try again in 99999999999.0s\<close> the client
  ends with \<open>OverflowError\<close> at the first attempt, where the claim has a wait and a
  retry.
\<close>

theorem rate_limit_protocol_counterexample:
  "get_key_phrases_for_chunk ideal_platform
     (scripted [error_response 429 ''try again in 30s''] (ok_response ''phrase one''))
     ''chunk'' 3 world0
   = (Inr [''phrase one''],
      \<lparr>sent = 2,
         trace = [Request ''chunk'', St_warning_rate_limit (Some 10), Sleep 10, Request ''chunk'']\<rparr>)
   \<and> get_key_phrases_for_chunk ideal_platform
       (scripted [error_response 429 ''try again in 99999999999.0s''] (ok_response ''phrase one''))
       ''chunk'' 3 world0
   = (Inl Overflow_error,
      \<lparr>sent = 1,
         trace = [Request ''chunk'', St_warning_rate_limit (Some 100000000000)]\<rparr>)"
proof -
  have m: "re_search ''try again in 30s'' = None"
    "re_search ''try again in 99999999999.0s'' = Some (''99999999999'', ''0'')"
    by (simp_all add: match_wait_def is_digit_def)
  have v: "decimal_value (''99999999999'', ''0'') = 99999999999"
    by (simp add: decimal_value_def)
  have s: "strip_py ''phrase one'' = ''phrase one''"
    by (simp add: strip_py_def is_space_def)
  have sp: "split_py [CHR 0x0A] ''phrase one'' = [''phrase one'']"
    by (simp add: split_py.simps)
  show ?thesis
    by (simp add: get_key_phrases_for_chunk_def upt_conv_Cons scripted_def error_response_def
        ok_response_def world0_def add_events_def wait_time_of_def m v float_py_def float_add_def
        ideal_platform_def s sp NL_def Let_def del: re_search.simps)
qed

section \<open>Properties of the highlighter\<close>

lemma highlight_instances_annots:
  "highlight_instances insts page
   = page\<lparr>annots := annots page @ map (\<lambda>inst. Highlight inst (1, 1, 0)) insts\<rparr>"
  by (induction insts arbitrary: page) simp_all

lemma highlight_phrases_annots:
  "highlight_phrases search key_phrases page
   = page\<lparr>annots := annots page @ phrase_annots search (layout page) key_phrases\<rparr>"
proof (induction key_phrases arbitrary: page)
  case Nil
  then show ?case by (simp add: phrase_annots_def)
next
  case (Cons k ks)
  show ?case
  proof (cases "length (strip_py k) > 5")
    case True
    then show ?thesis
      by (simp add: Cons.IH highlight_instances_annots phrase_annots_def)
  next
    case False
    then show ?thesis
      by (simp add: Cons.IH phrase_annots_def)
  qed
qed

lemma highlight_pages_from:
  "i \<le> length doc \<Longrightarrow>
   highlight_pages search ks [i..<length doc] doc
   = take i doc @ map (highlight_phrases search ks) (drop i doc)"
proof (induction "length doc - i" arbitrary: i doc)
  case 0
  then show ?case by simp
next
  case (Suc k)
  then have lt: "i < length doc" by simp
  define doc' where "doc' = doc[i := highlight_phrases search ks (doc ! i)]"
  have len: "length doc' = length doc" by (simp add: doc'_def)
  have "highlight_pages search ks [Suc i..<length doc'] doc'
      = take (Suc i) doc' @ map (highlight_phrases search ks) (drop (Suc i) doc')"
    using Suc.hyps(2) lt len by (intro Suc.hyps(1)) simp_all
  moreover have "take (Suc i) doc' = take i doc @ [highlight_phrases search ks (doc ! i)]"
    using lt by (simp add: doc'_def take_Suc_conv_app_nth)
  moreover have "drop (Suc i) doc' = drop (Suc i) doc"
    by (simp add: doc'_def)
  moreover have "drop i doc = doc ! i # drop (Suc i) doc"
    using lt by (simp add: Cons_nth_drop_Suc)
  moreover have "[i..<length doc] = i # [Suc i..<length doc]"
    using lt by (simp add: upt_conv_Cons)
  ultimately show ?case
    by (simp add: doc'_def len [unfolded doc'_def])
qed

lemma highlight_pages_map:
  "highlight_pages search ks [0..<length doc] doc
   = map (\<lambda>page. page\<lparr>annots := annots page @ phrase_annots search (layout page) ks\<rparr>) doc"
  using highlight_pages_from [of 0 doc search ks]
  by (simp add: highlight_phrases_annots [abs_def])

lemma phrase_annots_short:
  "\<forall>k \<in> set ks. length (strip_py k) < 6 \<Longrightarrow> phrase_annots search p ks = []"
  by (induction ks) (simp_all add: phrase_annots_def)

text \<open>
  Claim C7: the saved document is the opened one where every page has got, for each
  phrase in order, no annotation when the trimmed phrase has fewer than 6 characters, and
  otherwise one yellow highlight per instance that the search of that page returns for
  the trimmed phrase. In particular phrases that are all shorter than 6 characters after
  trimming leave the document as it was opened.
\<close>

theorem highlight_pdf_annotations:
  assumes "fitz_open lib input_pdf_bytes = Inr doc"
  shows "highlight_pdf lib input_pdf_bytes key_phrases
       = fitz_save lib
           (map (\<lambda>page. page\<lparr>annots := annots page @
              concat (map (\<lambda>key_phrase.
                 if 6 \<le> length (strip_py key_phrase)
                 then map (\<lambda>inst. Highlight inst (1, 1, 0))
                        (search_for lib (layout page) (strip_py key_phrase))
                 else []) key_phrases)\<rparr>) doc)
     \<and> ((\<forall>key_phrase \<in> set key_phrases. length (strip_py key_phrase) < 6)
          \<longrightarrow> highlight_pdf lib input_pdf_bytes key_phrases = fitz_save lib doc)"
proof -
  have "highlight_pdf lib input_pdf_bytes key_phrases
      = fitz_save lib (map (\<lambda>page. page\<lparr>annots := annots page @
            phrase_annots (search_for lib) (layout page) key_phrases\<rparr>) doc)"
    using assms by (simp add: highlight_pdf_def highlight_pages_map)
  moreover have "map (\<lambda>page. page\<lparr>annots := annots page @
            phrase_annots (search_for lib) (layout page) key_phrases\<rparr>) doc = doc"
    if "\<forall>key_phrase \<in> set key_phrases. length (strip_py key_phrase) < 6"
    using that by (simp add: phrase_annots_short map_idI)
  ultimately show ?thesis
    by (auto simp: phrase_annots_def)
qed

theorem highlight_pdf_annotations_witness:
  "stub_bytes [''Alpha point one.'', ''Beta point two.''] = ''Alpha point one.\<newline>Beta point two.\<newline>''
   \<and> highlight_pdf (stub_lib [''Alpha point one.'', ''Beta point two.''])
       ''Alpha point one.\<newline>Beta point two.\<newline>''
       [''Alpha point one.'', ''Nonexistent phrase'', '' point '']
     = Inr ''Alpha point one.!\<newline>Beta point two.\<newline>''
   \<and> highlight_pdf (stub_lib [''Alpha point one.'', ''Beta point two.''])
       ''Alpha point one.\<newline>Beta point two.\<newline>''
       ['' point '', ''two.'']
     = Inr ''Alpha point one.\<newline>Beta point two.\<newline>''"
proof -
  have s: "strip_py ''Alpha point one.'' = ''Alpha point one.''"
    "strip_py ''Nonexistent phrase'' = ''Nonexistent phrase''"
    "strip_py '' point '' = ''point''" "strip_py ''two.'' = ''two.''"
    by (simp_all add: strip_py_def is_space_def)
  have o: "occurrences ''Alpha point one.'' ''Alpha point one.'' = [0]"
    "occurrences ''Beta point two.'' ''Alpha point one.'' = []"
    "occurrences ''Alpha point one.'' ''Nonexistent phrase'' = []"
    "occurrences ''Beta point two.'' ''Nonexistent phrase'' = []"
    by (simp_all add: occurrences_def upt_conv_Cons)
  show ?thesis
    using highlight_pdf_annotations [where lib = "stub_lib [''Alpha point one.'', ''Beta point two.'']"
        and input_pdf_bytes = "''Alpha point one.\<newline>Beta point two.\<newline>''"
        and doc = "[\<lparr>layout = ''Alpha point one.'', annots = []\<rparr>,
                   \<lparr>layout = ''Beta point two.'', annots = []\<rparr>]"
        and key_phrases = "[''Alpha point one.'', ''Nonexistent phrase'', '' point '']"]
      highlight_pdf_annotations [where lib = "stub_lib [''Alpha point one.'', ''Beta point two.'']"
        and input_pdf_bytes = "''Alpha point one.\<newline>Beta point two.\<newline>''"
        and doc = "[\<lparr>layout = ''Alpha point one.'', annots = []\<rparr>,
                   \<lparr>layout = ''Beta point two.'', annots = []\<rparr>]"
        and key_phrases = "['' point '', ''two.'']"]
    by (simp add: stub_lib_def stub_bytes_def NL_def s o)
qed

section \<open>Properties of the pipeline\<close>











lemma stub_lib_fields:
  "reader_pages (stub_lib texts) b = Inr texts"
  "fitz_open (stub_lib texts) b = Inr (map (\<lambda>t. \<lparr>layout = t, annots = []\<rparr>) texts)"
  "search_for (stub_lib texts) = occurrences"
  "fitz_save (stub_lib texts) [] = Inl Pdf_save_failed"
  "fitz_save (stub_lib texts) (pg # pgs)
     = Inr (concat (map (\<lambda>pg. layout pg @ replicate (length (annots pg)) (CHR ''!'') @ NL) (pg # pgs)))"
  by (simp_all add: stub_lib_def)



text \<open>
  Claim C4, as the code has it: for a document whose text gives no chunk, the loop over
  the chunks makes no request and collects no phrase, and \<open>highlight_pdf\<close> passes the
  uploaded bytes through \<open>fitz.open\<close> and \<open>doc.save\<close> without adding an annotation.
  When both succeed the run offers for download what the library has saved: the code has
  no path that returns the uploaded bytes, so the download is the upload exactly when
  saving reproduces what was opened. When one of them raises, the run ends with the
  error messages and offers no download.
\<close>

theorem zero_chunks_pipeline:
  assumes "reader_pages lib pdf_bytes = Inr pages"
    and "extracted = extract_text_from_pdf (extract_text lib) pages"
    and "chunk_text extracted 3000 = []"
  shows "process_chunks py svc 0 (enumerate 0 (chunk_text extracted 3000)) [] w = (Inr [], w)
       \<and> highlight_pdf lib pdf_bytes []
           = (case fitz_open lib pdf_bytes of Inl e \<Rightarrow> Inl e | Inr doc \<Rightarrow> fitz_save lib doc)
       \<and> main lib py svc (Some pdf_bytes) button
           = \<lparr>sent = 0,
                trace = [St_title, St_write_intro, St_info_extracted (length extracted), St_text extracted,
                         St_info_split 0, St_write_processing, St_progress_bar]
                        @ (case highlight_pdf lib pdf_bytes [] of
                             Inl e \<Rightarrow> [St_error_exception e, St_error_traceback e]
                           | Inr highlighted_pdf \<Rightarrow> [St_success, St_download_button highlighted_pdf])\<rparr>"
proof -
  have p: "process_chunks py svc 0 (enumerate 0 (chunk_text extracted 3000)) [] w = (Inr [], w)"
    using assms(3) by simp
  have h: "highlight_pdf lib pdf_bytes []
           = (case fitz_open lib pdf_bytes of Inl e \<Rightarrow> Inl e | Inr doc \<Rightarrow> fitz_save lib doc)"
    by (simp add: highlight_pdf_def highlight_pages_map phrase_annots_def split: sum.splits)
  have m: "main lib py svc (Some pdf_bytes) button
           = \<lparr>sent = 0,
                trace = [St_title, St_write_intro, St_info_extracted (length extracted), St_text extracted,
                         St_info_split 0, St_write_processing, St_progress_bar]
                        @ (case highlight_pdf lib pdf_bytes [] of
                             Inl e \<Rightarrow> [St_error_exception e, St_error_traceback e]
                           | Inr highlighted_pdf \<Rightarrow> [St_success, St_download_button highlighted_pdf])\<rparr>"
    using assms(1,3) unfolding main_def main_try_def assms(2)
    by (cases "highlight_pdf lib pdf_bytes []") (simp_all add: Let_def add_events_def world0_def)
  show ?thesis
    using p h m by simp
qed

theorem zero_chunks_pipeline_witness:
  "reader_pages (stub_lib [[]]) (stub_bytes [[]]) = Inr [[]]
   \<and> stub_bytes [[]] = ''\<newline>''
   \<and> chunk_text (extract_text_from_pdf (extract_text (stub_lib [[]])) [[]]) 3000 = []
   \<and> highlight_pdf (stub_lib [[]]) ''\<newline>'' [] = Inr ''\<newline>''
   \<and> main (stub_lib [[]]) ideal_platform (scripted [] (ok_response ''phrase one'')) (Some ''\<newline>'') False
       = \<lparr>sent = 0,
            trace = [St_title, St_write_intro, St_info_extracted 2, St_text ''\<newline>\<newline>'',
                     St_info_split 0, St_write_processing, St_progress_bar,
                     St_success, St_download_button ''\<newline>'']\<rparr>"
proof -
  have b: "stub_bytes [[]] = ''\<newline>''"
    by (simp add: stub_bytes_def NL_def)
  have t: "extract_text_from_pdf (extract_text (stub_lib [[]])) [[]] = ''\<newline>\<newline>''"
    by (simp add: extract_text_from_pdf_def stub_lib_def NL2_def)
  have c: "chunk_text ''\<newline>\<newline>'' 3000 = []"
    by (simp add: chunk_text_def NL2_def split_py.simps)
  show ?thesis
    using zero_chunks_pipeline [where lib = "stub_lib [[]]" and pdf_bytes = "''\<newline>''"
        and pages = "[[]]" and extracted = "''\<newline>\<newline>''" and py = ideal_platform
        and svc = "scripted [] (ok_response ''phrase one'')" and button = False]
    by (simp add: b t c stub_lib_fields NL_def)
qed

text \<open>
  The claim as stated fails on its own example, the document without pages: its text gives
  no chunk and no phrase, but saving it is refused, so that the run ends with the error
  messages and there is no output document at all.
\<close>

theorem zero_chunks_pipeline_counterexample:
  "chunk_text (extract_text_from_pdf (extract_text (stub_lib [])) []) 3000 = []
   \<and> highlight_pdf (stub_lib []) (stub_bytes []) [] = Inl Pdf_save_failed
   \<and> main (stub_lib []) ideal_platform (scripted [] (ok_response ''phrase one'')) (Some (stub_bytes [])) False
       = \<lparr>sent = 0,
            trace = [St_title, St_write_intro, St_info_extracted 0, St_text [], St_info_split 0,
                     St_write_processing, St_progress_bar,
                     St_error_exception Pdf_save_failed, St_error_traceback Pdf_save_failed]\<rparr>"
proof -
  have t: "extract_text_from_pdf (extract_text (stub_lib [])) [] = []"
    by (simp add: extract_text_from_pdf_def)
  have c: "chunk_text [] 3000 = []"
    by (simp add: chunk_text_def split_py.simps)
  show ?thesis
    by (simp add: t c main_def main_try_def stub_lib_fields highlight_pdf_def Let_def
        add_events_def world0_def)
qed

end
